theory Spec2Isabelle
  imports Main "HOL-Library.Char_ord" "HOL-Library.List_Lexorder"
begin

section \<open>Strings\<close>

text \<open>
  The four scripts work on Python \<open>str\<close> values. A string is modelled as a \<open>char list\<close>
  whose elements are the code points below 256; on that range the character classes used
  by the scripts are exactly the ones below: \<open>[A-Za-z0-9]\<close> is ASCII by its own
  definition, \<open>\d\<close> matches the ten ASCII digits only, \<open>str.split()\<close> and
  \<open>str.strip()\<close> cut at \<open>str.isspace\<close> characters, \<open>str.splitlines()\<close> cuts at the
  line boundaries listed in \<open>is_linebreak\<close>, and \<open>int()\<close> ignores the characters of
  \<open>is_int_space\<close> around a numeral. Strings are compared by code point, which is
  the lexicographic order of \<open>char list\<close>.

  Prefixes of the names: \<open>su_\<close> is \<open>Sheet_Update_runt_this.py\<close>, \<open>nr_\<close> is
  \<open>Sheet_update_new_remote.py\<close>, \<open>du_\<close> is \<open>drive_upload_run_this.py\<close> and \<open>dn_\<close> is
  \<open>drive_upload_new_remote.py\<close>.
\<close>

definition is_digit :: "char \<Rightarrow> bool" where
  "is_digit c = (48 \<le> (of_char c :: nat) \<and> (of_char c :: nat) \<le> 57)"

definition is_upper :: "char \<Rightarrow> bool" where
  "is_upper c = (65 \<le> (of_char c :: nat) \<and> (of_char c :: nat) \<le> 90)"

definition is_lower :: "char \<Rightarrow> bool" where
  "is_lower c = (97 \<le> (of_char c :: nat) \<and> (of_char c :: nat) \<le> 122)"

text \<open>The character class \<open>[A-Za-z0-9]\<close>.\<close>

definition is_alnum :: "char \<Rightarrow> bool" where
  "is_alnum c = (is_upper c \<or> is_lower c \<or> is_digit c)"

text \<open>
  \<open>str.upper()\<close> and \<open>str.lower()\<close> on the ASCII letters. The scripts apply \<open>upper\<close> only
  to strings of \<open>[A-Za-z0-9]\<close>, and use \<open>lower\<close> only to compare with an ASCII suffix that
  no character outside ASCII lowers to.
\<close>

definition upper_char :: "char \<Rightarrow> char" where
  "upper_char c = (if is_lower c then char_of ((of_char c :: nat) - 32) else c)"

definition lower_char :: "char \<Rightarrow> char" where
  "lower_char c = (if is_upper c then char_of ((of_char c :: nat) + 32) else c)"

definition py_upper :: "string \<Rightarrow> string" where
  "py_upper s = map upper_char s"

definition py_lower :: "string \<Rightarrow> string" where
  "py_lower s = map lower_char s"

text \<open>
  \<open>s.replace(old, new)\<close>: every occurrence of \<open>old\<close>, found from the left and not
  overlapping, becomes \<open>new\<close>. For an empty \<open>old\<close> Python puts \<open>new\<close> before every
  character and at the end.
\<close>

fun replace_from :: "string \<Rightarrow> string \<Rightarrow> string \<Rightarrow> string" where
  "replace_from old new [] = []"
| "replace_from old new (c # cs) =
     (if take (length old) (c # cs) = old
      then new @ replace_from old new (drop (length old - 1) cs)
      else c # replace_from old new cs)"

definition py_replace :: "string \<Rightarrow> string \<Rightarrow> string \<Rightarrow> string" where
  "py_replace old new s =
     (if old = [] then new @ concat (map (\<lambda>c. c # new) s) else replace_from old new s)"

text \<open>\<open>re.sub(r'[^A-Za-z0-9]', '', s)\<close>.\<close>

definition strip_non_alnum :: "string \<Rightarrow> string" where
  "strip_non_alnum s = filter is_alnum s"

text \<open>
  \<open>str.isspace\<close> on the code points below 256: tab, line feed, vertical tab, form feed,
  carriage return, the four separators \<open>0x1C\<close> to \<open>0x1F\<close>, space, \<open>0x85\<close> and \<open>0xA0\<close>.
\<close>

definition is_space :: "char \<Rightarrow> bool" where
  "is_space c = ((of_char c :: nat) \<in> {9, 10, 11, 12, 13, 28, 29, 30, 31, 32, 133, 160})"

text \<open>The line boundaries of \<open>str.splitlines\<close> (a carriage return and a line feed in a
  row count once).\<close>

definition is_linebreak :: "char \<Rightarrow> bool" where
  "is_linebreak c = ((of_char c :: nat) \<in> {10, 11, 12, 13, 28, 29, 30, 133})"

fun splitlines_from :: "string \<Rightarrow> string \<Rightarrow> string list" where
  "splitlines_from cur [] = (if cur = [] then [] else [rev cur])"
| "splitlines_from cur (c # cs) =
     (if is_linebreak c then
        (case cs of
           d # ds \<Rightarrow>
             if c = CHR 0x0D \<and> d = CHR 0x0A then rev cur # splitlines_from [] ds
             else rev cur # splitlines_from [] (d # ds)
         | [] \<Rightarrow> [rev cur])
      else splitlines_from (c # cur) cs)"

definition py_splitlines :: "string \<Rightarrow> string list" where
  "py_splitlines text = splitlines_from [] text"

text \<open>\<open>line.split()\<close>: the maximal runs of characters that are not whitespace.\<close>

fun split_from :: "string \<Rightarrow> string \<Rightarrow> string list" where
  "split_from cur [] = (if cur = [] then [] else [rev cur])"
| "split_from cur (c # cs) =
     (if is_space c then (if cur = [] then split_from [] cs else rev cur # split_from [] cs)
      else split_from (c # cur) cs)"

definition py_split :: "string \<Rightarrow> string list" where
  "py_split s = split_from [] s"

definition py_strip :: "string \<Rightarrow> string" where
  "py_strip s = rev (dropWhile is_space (rev (dropWhile is_space s)))"

text \<open>
  \<open>int(s)\<close> for a string. What \<open>int\<close> ignores around the numeral is narrower than
  \<open>str.isspace\<close>: tab, line feed, vertical tab, form feed, carriage return, space, \<open>0x85\<close>
  and \<open>0xA0\<close>, and not the separators \<open>0x1C\<close> to \<open>0x1F\<close>. One sign may lead, and single
  underscores may stand between digits. A numeral of more than 4300 digits is refused
  (the default of \<open>sys.get_int_max_str_digits()\<close>). \<open>None\<close> is the \<open>ValueError\<close>.
\<close>

definition is_int_space :: "char \<Rightarrow> bool" where
  "is_int_space c = ((of_char c :: nat) \<in> {9, 10, 11, 12, 13, 32, 133, 160})"

definition int_strip :: "string \<Rightarrow> string" where
  "int_strip s = rev (dropWhile is_int_space (rev (dropWhile is_int_space s)))"

definition int_max_str_digits :: nat where
  "int_max_str_digits = 4300"

fun digits_value :: "nat \<Rightarrow> string \<Rightarrow> nat" where
  "digits_value acc [] = acc"
| "digits_value acc (c # cs) =
     (if is_digit c then digits_value (10 * acc + ((of_char c :: nat) - 48)) cs
      else digits_value acc cs)"

fun numeral_body :: "string \<Rightarrow> bool" where
  "numeral_body [] = False"
| "numeral_body [c] = is_digit c"
| "numeral_body (c # d # cs) =
     (is_digit c \<and> (if d = CHR ''_'' then numeral_body cs else numeral_body (d # cs)))"

text \<open>The value of an unsigned numeral, when it is one and is not too long.\<close>

definition numeral_value :: "string \<Rightarrow> nat option" where
  "numeral_value body =
     (if numeral_body body \<and> length (filter is_digit body) \<le> int_max_str_digits
      then Some (digits_value 0 body) else None)"

definition py_int :: "string \<Rightarrow> int option" where
  "py_int s =
     (case int_strip s of
        [] \<Rightarrow> None
      | c # cs \<Rightarrow>
          if c = CHR ''-'' then map_option (\<lambda>n. - int n) (numeral_value cs)
          else if c = CHR ''+'' then map_option int (numeral_value cs)
          else map_option int (numeral_value (c # cs)))"

text \<open>\<open>str(n)\<close> for a natural number, and the format \<open>{n:03d}\<close>: zero padded to a width
  of three, the sign of a negative number inside the width.\<close>

fun nat_digits :: "nat \<Rightarrow> nat \<Rightarrow> string" where
  "nat_digits 0 n = []"
| "nat_digits (Suc fuel) n =
     (if n < 10 then [char_of (48 + n)]
      else nat_digits fuel (n div 10) @ [char_of (48 + n mod 10)])"

definition str_nat :: "nat \<Rightarrow> string" where
  "str_nat n = nat_digits (Suc n) n"

definition zero_pad :: "nat \<Rightarrow> string \<Rightarrow> string" where
  "zero_pad w s = replicate (w - length s) (CHR ''0'') @ s"

definition format_03d :: "int \<Rightarrow> string" where
  "format_03d n =
     (if n < 0 then CHR ''-'' # zero_pad 2 (str_nat (nat (- n))) else zero_pad 3 (str_nat (nat n)))"

section \<open>Patterns\<close>

text \<open>
  The regular expressions of the scripts are sequences of one-character items, so each
  has a fixed length: a digit \<open>\d\<close>, a literal character, a letter matched under
  \<open>re.IGNORECASE\<close>, or a character set. \<open>re_match\<close> is \<open>re.match\<close>: the pattern has to match
  at the start of the string and nothing is asked of what follows it.
\<close>

datatype atom = Digit | Lit char | NoCase char | AnyOf "char list"

fun atom_ok :: "atom \<Rightarrow> char \<Rightarrow> bool" where
  "atom_ok Digit c = is_digit c"
| "atom_ok (Lit a) c = (c = a)"
| "atom_ok (NoCase a) c = (lower_char c = lower_char a)"
| "atom_ok (AnyOf as) c = (c \<in> set as)"

fun re_match :: "atom list \<Rightarrow> string \<Rightarrow> bool" where
  "re_match [] s = True"
| "re_match (a # as) [] = False"
| "re_match (a # as) (c # cs) = (atom_ok a c \<and> re_match as cs)"

text \<open>\<open>r'\d{4}-\d{2}-\d{2}'\<close> and \<open>r'\d{2}:\d{2}:\d{2}'\<close>.\<close>

definition date_pattern :: "atom list" where
  "date_pattern = [Digit, Digit, Digit, Digit, Lit (CHR ''-''), Digit, Digit, Lit (CHR ''-''),
     Digit, Digit]"

definition time_pattern :: "atom list" where
  "time_pattern = [Digit, Digit, Lit (CHR '':''), Digit, Digit, Lit (CHR '':''), Digit, Digit]"

text \<open>\<open>r'_(\d{3})_123_Report\.txt$'\<close> without its end anchor, and \<open>r'SLM[_\-](\d{3})'\<close>.\<close>

definition sheet_index_pattern :: "atom list" where
  "sheet_index_pattern = [Lit (CHR ''_''), Digit, Digit, Digit] @ map NoCase ''_123_Report.txt''"

definition upload_index_pattern :: "atom list" where
  "upload_index_pattern = map NoCase ''SLM'' @ [AnyOf ''_-'', Digit, Digit, Digit]"

section \<open>Name normalisation\<close>

text \<open>
  Line 85 of \<open>Sheet_Update_runt_this.py\<close> reads
  \<^verbatim>\<open>s = name.replace(''', "'").replace(''', "'")\<close>
  with ASCII apostrophes throughout. Python reads the first three apostrophes as the start
  of a triple-quoted literal that ends at the next three, so the line is one call of
  \<open>replace\<close>: its first argument is the fifteen characters \<^verbatim>\<open>, "'").replace(\<close> and
  its second is a single apostrophe.
\<close>

definition su_replace_old :: string where
  "su_replace_old = [CHR '','', CHR '' '', CHR 0x22, CHR 0x27, CHR 0x22] @ '').replace(''"

definition su_keyize :: "string option \<Rightarrow> string" where
  "su_keyize name =
     (case name of
        None \<Rightarrow> []
      | Some n \<Rightarrow>
          if n = [] then []
          else py_upper (strip_non_alnum
                 (py_replace ''_'' '' '' (py_replace su_replace_old [CHR 0x27] n))))"

definition nr_keyize :: "string option \<Rightarrow> string" where
  "nr_keyize name =
     (case name of
        None \<Rightarrow> []
      | Some n \<Rightarrow>
          if n = [] then []
          else py_upper (strip_non_alnum (py_replace ''_'' '' '' n)))"

text \<open>
  Two names that differ only by letter case, by underscore against space, or by
  punctuation. Punctuation is taken as widely as the normaliser takes it: any character
  that is not an ASCII letter or digit, which covers the underscore and the space.
\<close>

inductive same_name :: "string \<Rightarrow> string \<Rightarrow> bool" where
  sn_nil: "same_name [] []"
| sn_letter: "same_name xs ys \<Longrightarrow> is_alnum c \<Longrightarrow> is_alnum d \<Longrightarrow> upper_char c = upper_char d
    \<Longrightarrow> same_name (c # xs) (d # ys)"
| sn_left: "same_name xs ys \<Longrightarrow> \<not> is_alnum c \<Longrightarrow> same_name (c # xs) ys"
| sn_right: "same_name xs ys \<Longrightarrow> \<not> is_alnum c \<Longrightarrow> same_name xs (c # ys)"

section \<open>The remote tree\<close>

text \<open>
  A listing entry is the dictionary \<open>{'id', 'name', 'mimeType'}\<close> of the Drive API. The
  remote tree is what \<open>list_children\<close> returns for each parent id once every page has been
  read; the scripts read it and never change it while they collect.
\<close>

record drive_file =
  file_id :: string
  file_name :: string
  mimeType :: string

type_synonym drive = "string \<Rightarrow> drive_file list"

definition FOLDER_MIME :: string where
  "FOLDER_MIME = ''application/vnd.google-apps.folder''"

definition is_folder :: "drive_file \<Rightarrow> bool" where
  "is_folder f = (mimeType f = FOLDER_MIME)"

definition list_children :: "drive \<Rightarrow> string \<Rightarrow> drive_file list" where
  "list_children svc parent_id = svc parent_id"

text \<open>
  \<open>INDEX_RE = re.compile(r'_(\d{3})_123_Report\.txt$', re.IGNORECASE)\<close> of the two sheet
  scripts; \<open>sheet_index_search name\<close> is group 1 of \<open>INDEX_RE.search(name)\<close>. The pattern
  has a fixed length of 19 characters and \<open>$\<close> matches at the end of the string or just
  before a newline that ends it, so there is at most one place where it can match.
\<close>

definition sheet_index_search :: "string \<Rightarrow> string option" where
  "sheet_index_search name =
     (let body = (if name \<noteq> [] \<and> last name = CHR 0x0A then butlast name else name);
          suf = drop (length body - 19) body
      in if 19 \<le> length body \<and> re_match sheet_index_pattern suf
         then Some (take 3 (drop 1 suf)) else None)"

definition endswith :: "string \<Rightarrow> string \<Rightarrow> bool" where
  "endswith s suf = (length suf \<le> length s \<and> drop (length s - length suf) s = suf)"

definition su_is_report_file :: "string \<Rightarrow> bool" where
  "su_is_report_file name =
     (if name = [] then False
      else endswith (py_lower name) ''_123_report.txt'' \<or> sheet_index_search name \<noteq> None)"

definition su_descend_to_folder :: "drive \<Rightarrow> string \<Rightarrow> string \<Rightarrow> string option" where
  "su_descend_to_folder svc parent_id name =
     map_option file_id
       (find (\<lambda>f. is_folder f \<and> su_keyize (Some (file_name f)) = su_keyize (Some name))
          (list_children svc parent_id))"

definition su_list_named_child_folders :: "drive \<Rightarrow> string \<Rightarrow> string \<Rightarrow> drive_file list" where
  "su_list_named_child_folders svc parent_id name =
     filter (\<lambda>f. is_folder f \<and> su_keyize (Some (file_name f)) = su_keyize (Some name))
       (list_children svc parent_id)"

text \<open>
  The number of queue entries that an entry with \<open>k\<close> levels left can still cause; it
  bounds the breadth-first loops, which stop descending at a fixed depth.
\<close>

fun queue_weight :: "drive \<Rightarrow> nat \<Rightarrow> string \<Rightarrow> nat" where
  "queue_weight svc 0 fid = 1"
| "queue_weight svc (Suc k) fid =
     Suc (sum_list (map (\<lambda>ch. queue_weight svc k (file_id ch)) (filter is_folder (svc fid))))"

text \<open>
  The loop of \<open>_folder_has_any_report\<close>: the deque holds pairs of a folder id and its
  depth; an entry deeper than \<open>max_depth\<close> is dropped unread.
\<close>

function su_probe :: "drive \<Rightarrow> nat \<Rightarrow> (string \<times> nat) list \<Rightarrow> bool" where
  "su_probe svc max_depth [] = False"
| "su_probe svc max_depth ((fid, d) # dq) =
     (if d > max_depth then su_probe svc max_depth dq
      else if list_ex (\<lambda>ch. \<not> is_folder ch \<and> su_is_report_file (file_name ch))
                (list_children svc fid)
      then True
      else su_probe svc max_depth
             (dq @ map (\<lambda>ch. (file_id ch, d + 1)) (filter is_folder (list_children svc fid))))"
  by pat_completeness auto
termination
  by (relation "measure (\<lambda>(svc, md, q).
        sum_list (map (\<lambda>(f, d). queue_weight svc (Suc md - d) f) q))")
     (auto simp: Suc_diff_le list_children_def comp_def)

definition su_folder_has_any_report :: "drive \<Rightarrow> string \<Rightarrow> nat \<Rightarrow> bool" where
  "su_folder_has_any_report svc folder_id max_depth = su_probe svc max_depth [(folder_id, 0)]"

fun su_first_with_report :: "drive \<Rightarrow> drive_file list \<Rightarrow> string option" where
  "su_first_with_report svc [] = None"
| "su_first_with_report svc (cand # rest) =
     (if su_folder_has_any_report svc (file_id cand) 6 then Some (file_id cand)
      else su_first_with_report svc rest)"

definition su_choose_class_folder_with_content :: "drive \<Rightarrow> string \<Rightarrow> string \<Rightarrow> string option"
  where
  "su_choose_class_folder_with_content svc parent_id class_name =
     (case su_list_named_child_folders svc parent_id class_name of
        [] \<Rightarrow> None
      | first # others \<Rightarrow>
          (case su_first_with_report svc (first # others) of
             Some fid \<Rightarrow> Some fid
           | None \<Rightarrow> Some (file_id first)))"

text \<open>
  What the probe is meant to decide, said without a queue: \<open>folder_at_depth svc r k g\<close>
  holds when \<open>g\<close> is reached from \<open>r\<close> through \<open>k\<close> folder entries, each listed under the
  one before.
\<close>

inductive folder_at_depth :: "drive \<Rightarrow> string \<Rightarrow> nat \<Rightarrow> string \<Rightarrow> bool" where
  here: "folder_at_depth svc r 0 r"
| below: "ch \<in> set (svc r) \<Longrightarrow> is_folder ch \<Longrightarrow> folder_at_depth svc (file_id ch) k g
    \<Longrightarrow> folder_at_depth svc r (Suc k) g"

definition has_report_within :: "drive \<Rightarrow> string \<Rightarrow> nat \<Rightarrow> bool" where
  "has_report_within svc r bound =
     (\<exists>k g f. k \<le> bound \<and> folder_at_depth svc r k g \<and> f \<in> set (svc g)
        \<and> \<not> is_folder f \<and> su_is_report_file (file_name f))"

section \<open>Reading the measurement\<close>

text \<open>
  \<open>extract_laeq\<close> is the same function in both sheet scripts: the first line with at least
  five tokens on which \<open>re.match\<close> finds the date and time patterns at tokens 0 to 3.
\<close>

fun extract_laeq_lines :: "string list \<Rightarrow> string option" where
  "extract_laeq_lines [] = None"
| "extract_laeq_lines (line # rest) =
     (let toks = py_split line
      in if 5 \<le> length toks
            \<and> re_match date_pattern (toks ! 0) \<and> re_match time_pattern (toks ! 1)
            \<and> re_match date_pattern (toks ! 2) \<and> re_match time_pattern (toks ! 3)
         then Some (toks ! 4)
         else extract_laeq_lines rest)"

definition extract_laeq :: "string \<Rightarrow> string option" where
  "extract_laeq text = extract_laeq_lines (py_splitlines text)"

text \<open>
  The shapes of a token, said character by character and without the patterns: a token
  that begins with \<open>YYYY-MM-DD\<close> or with \<open>HH:MM:SS\<close>, whatever follows, and a token that is
  of that shape and no longer.
\<close>

definition begins_with_date :: "string \<Rightarrow> bool" where
  "begins_with_date tok =
     (10 \<le> length tok
      \<and> is_digit (tok ! 0) \<and> is_digit (tok ! 1) \<and> is_digit (tok ! 2) \<and> is_digit (tok ! 3)
      \<and> tok ! 4 = CHR ''-'' \<and> is_digit (tok ! 5) \<and> is_digit (tok ! 6)
      \<and> tok ! 7 = CHR ''-'' \<and> is_digit (tok ! 8) \<and> is_digit (tok ! 9))"

definition begins_with_time :: "string \<Rightarrow> bool" where
  "begins_with_time tok =
     (8 \<le> length tok
      \<and> is_digit (tok ! 0) \<and> is_digit (tok ! 1) \<and> tok ! 2 = CHR '':''
      \<and> is_digit (tok ! 3) \<and> is_digit (tok ! 4) \<and> tok ! 5 = CHR '':''
      \<and> is_digit (tok ! 6) \<and> is_digit (tok ! 7))"

definition is_date_token :: "string \<Rightarrow> bool" where
  "is_date_token tok = (length tok = 10 \<and> begins_with_date tok)"

definition is_time_token :: "string \<Rightarrow> bool" where
  "is_time_token tok = (length tok = 8 \<and> begins_with_time tok)"

text \<open>A line of at least five tokens whose tokens 0 to 3 begin with a date, a time, a
  date and a time.\<close>

definition line_qualifies :: "string \<Rightarrow> bool" where
  "line_qualifies line =
     (5 \<le> length (py_split line)
      \<and> begins_with_date (py_split line ! 0) \<and> begins_with_time (py_split line ! 1)
      \<and> begins_with_date (py_split line ! 2) \<and> begins_with_time (py_split line ! 3))"

section \<open>The runs of the sheet scripts\<close>

text \<open>
  A run is modelled with the calls it makes, in order. The remote tree and the file
  contents are read only and every read of them succeeds; the two reads of the
  spreadsheet can fail with \<open>HttpError\<close>. An update is the pair of the \<open>range\<close> and the
  single value of one entry of the batch.
\<close>

datatype 'a api_result = HttpError | Ok 'a

datatype exn = KeyError | IndexError | ValueError

datatype message = Wrote nat | NoUpdates | ApiError | ConfigError

type_synonym update = "string \<times> string"

datatype event =
    SheetsGet
  | ValuesGet string
  | ListChildren string
  | Descend string string
  | Choose string string
  | FindReport string
  | FindReportByIndex string string
  | Download string
  | BatchUpdate "update list"
  | Print message

datatype outcome = Returned | SysExit nat | Uncaught exn

fun is_write :: "event \<Rightarrow> bool" where
  "is_write (BatchUpdate us) = True"
| "is_write e = False"

record env =
  drive :: drive
  file_text :: "string \<Rightarrow> string"
  spreadsheet_titles :: "string list api_result"
  column_a :: "string list list api_result"

definition SHEET_NAME :: string where
  "SHEET_NAME = ''Main Sheet''"

definition ROWS_RANGE :: string where
  "ROWS_RANGE = SHEET_NAME @ ''!A4:A240''"

text \<open>\<open>if not x\<close> for an id that may be \<open>None\<close>: \<open>None\<close> and the empty string are false.\<close>

definition truthy :: "string option \<Rightarrow> bool" where
  "truthy x = (case x of None \<Rightarrow> False | Some v \<Rightarrow> v \<noteq> [])"

text \<open>The loop that fills the row table: \<open>enumerate(resp, start=4)\<close>, a later row with the
  same key replacing an earlier one.\<close>

fun rows_from :: "(string option \<Rightarrow> string) \<Rightarrow> nat \<Rightarrow> string list list \<Rightarrow> (string \<rightharpoonup> nat)
    \<Rightarrow> (string \<rightharpoonup> nat)" where
  "rows_from keyize idx [] m = m"
| "rows_from keyize idx (row # rest) m =
     rows_from keyize (idx + 1) rest
       (case row of
          [] \<Rightarrow> m
        | cell # cells \<Rightarrow>
            if py_strip cell \<noteq> [] then m(keyize (Some (py_strip cell)) \<mapsto> idx) else m)"

subsection \<open>\<open>Sheet_Update_runt_this.py\<close>\<close>

definition su_DRIVE_ROOT_FOLDER_ID :: string where
  "su_DRIVE_ROOT_FOLDER_ID = ''1AiDo1LcV6JSfPOi4x0I9z89QjFnYE3cn''"

definition su_TARGET_CLASSES :: "string list" where
  "su_TARGET_CLASSES = [''WPH 400'', ''WPH 603'']"

definition professors_desk :: string where
  "professors_desk = ''Professor'' @ [CHR 0x27] @ ''s Desk''"

definition su_INDEX_TO_DRIVE_PATH :: "(string \<times> string list) list" where
  "su_INDEX_TO_DRIVE_PATH =
     [(''000'', [''Local'', ''Without Audio'', ''Center'']),
      (''001'', [''Local'', ''Without Audio'', ''Front_1'']),
      (''002'', [''Local'', ''Without Audio'', ''Front_2'']),
      (''003'', [''Local'', ''Without Audio'', ''Back_1'']),
      (''004'', [''Local'', ''Without Audio'', ''Back_2'']),
      (''005'', [''Local'', ''Without Audio'', professors_desk]),
      (''006'', [''Local'', ''With Audio'', ''Center'']),
      (''007'', [''Local'', ''With Audio'', ''Front_1'']),
      (''008'', [''Local'', ''With Audio'', ''Front_2'']),
      (''009'', [''Local'', ''With Audio'', ''Back_1'']),
      (''010'', [''Local'', ''With Audio'', ''Back_2'']),
      (''011'', [''Local'', ''With Audio'', professors_desk]),
      (''012'', [''Remote_1'', ''Center'']),
      (''013'', [''Remote_1'', ''Front_1'']),
      (''014'', [''Remote_1'', ''Front_2'']),
      (''015'', [''Remote_1'', ''Back_1'']),
      (''016'', [''Remote_1'', ''Back_2'']),
      (''017'', [''Remote_1'', professors_desk]),
      (''018'', [''Remote_2''])]"

definition su_INDEX_TO_COL :: "(string \<times> string) list" where
  "su_INDEX_TO_COL =
     [(''000'', ''C''), (''001'', ''D''), (''002'', ''E''), (''003'', ''F''), (''004'', ''G''),
      (''005'', ''H''), (''006'', ''J''), (''007'', ''K''), (''008'', ''L''), (''009'', ''M''),
      (''010'', ''N''), (''011'', ''O''), (''012'', ''Q''), (''013'', ''R''), (''014'', ''S''),
      (''015'', ''T''), (''016'', ''U''), (''017'', ''V''), (''018'', ''X'')]"

definition su_find_report_file :: "drive \<Rightarrow> string \<Rightarrow> (string \<times> string) option" where
  "su_find_report_file svc folder_id =
     map_option (\<lambda>f. (file_id f, file_name f))
       (find (\<lambda>f. \<not> is_folder f \<and> su_is_report_file (file_name f)) (list_children svc folder_id))"

text \<open>\<open>map_sheet_rows\<close>; \<open>None\<close> is \<open>sys.exit(1)\<close>.\<close>

definition su_map_sheet_rows :: "env \<Rightarrow> (string \<rightharpoonup> nat) option \<times> event list" where
  "su_map_sheet_rows e =
     (case spreadsheet_titles e of
        HttpError \<Rightarrow> (None, [SheetsGet, Print ApiError])
      | Ok available \<Rightarrow>
          if SHEET_NAME \<notin> set available then (None, [SheetsGet, Print ConfigError])
          else (case column_a e of
                  HttpError \<Rightarrow> (None, [SheetsGet, ValuesGet ROWS_RANGE, Print ApiError])
                | Ok resp \<Rightarrow>
                    (Some (rows_from su_keyize 4 resp Map.empty),
                     [SheetsGet, ValuesGet ROWS_RANGE])))"

text \<open>
  Lines 260 to 265 of \<open>main\<close>: the segment as configured, then its other spelling.
\<close>

definition su_alt_spelling :: "string \<Rightarrow> string" where
  "su_alt_spelling seg =
     (if CHR ''_'' \<in> set seg then py_replace ''_'' '' '' seg else py_replace '' '' ''_'' seg)"

definition su_resolve_segment :: "drive \<Rightarrow> string \<Rightarrow> string \<Rightarrow> string option \<times> event list" where
  "su_resolve_segment svc fid seg =
     (if truthy (su_descend_to_folder svc fid seg)
      then (su_descend_to_folder svc fid seg, [Descend fid seg])
      else (su_descend_to_folder svc fid (su_alt_spelling seg),
            [Descend fid seg, Descend fid (su_alt_spelling seg)]))"

text \<open>The loop over the segments of one index; \<open>None\<close> is \<open>fid = None\<close> after \<open>break\<close>.\<close>

fun su_walk_segments :: "drive \<Rightarrow> string \<Rightarrow> string list \<Rightarrow> string option \<times> event list" where
  "su_walk_segments svc fid [] = (Some fid, [])"
| "su_walk_segments svc fid (seg # segs) =
     (case su_resolve_segment svc fid seg of
        (None, evs) \<Rightarrow> (None, evs)
      | (Some next_id, evs) \<Rightarrow>
          if next_id = [] then (None, evs)
          else (case su_walk_segments svc next_id segs of (r, evs') \<Rightarrow> (r, evs @ evs')))"

text \<open>The body of the loop over the indices, after the path of the index was looked up:
  the updates it appends and the calls it makes.\<close>

definition su_index_step :: "env \<Rightarrow> string \<Rightarrow> nat \<Rightarrow> string \<Rightarrow> string list
    \<Rightarrow> update list \<times> event list" where
  "su_index_step e c_id row col segs =
     (case su_walk_segments (drive e) c_id segs of
        (None, evs) \<Rightarrow> ([], evs)
      | (Some fid, evs) \<Rightarrow>
          if fid = [] then ([], evs)
          else (case su_find_report_file (drive e) fid of
                  None \<Rightarrow> ([], evs @ [FindReport fid])
                | Some (rid, fname) \<Rightarrow>
                    if rid = [] then ([], evs @ [FindReport fid])
                    else (case extract_laeq (file_text e rid) of
                            None \<Rightarrow> ([], evs @ [FindReport fid, Download rid])
                          | Some laeq \<Rightarrow>
                              ([(SHEET_NAME @ ''!'' @ col @ str_nat row, laeq)],
                               evs @ [FindReport fid, Download rid]))))"

fun su_index_loop :: "env \<Rightarrow> (string \<times> string list) list \<Rightarrow> string \<Rightarrow> nat
    \<Rightarrow> (string \<times> string) list \<Rightarrow> update list \<Rightarrow> exn option \<times> update list \<times> event list" where
  "su_index_loop e paths c_id row [] updates = (None, updates, [])"
| "su_index_loop e paths c_id row ((idx, col) # rest) updates =
     (case map_of paths idx of
        None \<Rightarrow> (Some KeyError, updates, [])
      | Some segs \<Rightarrow>
          (case su_index_step e c_id row col segs of
             (new, evs) \<Rightarrow>
               (case su_index_loop e paths c_id row rest (updates @ new) of
                  (x, us, evs') \<Rightarrow> (x, us, evs @ evs'))))"

text \<open>The body of the loop over the classes.\<close>

definition su_class_step :: "env \<Rightarrow> (string \<rightharpoonup> nat) \<Rightarrow> string \<Rightarrow> update list
    \<Rightarrow> exn option \<times> update list \<times> event list" where
  "su_class_step e class_map class_name updates =
     (case py_split class_name of
        [] \<Rightarrow> (Some IndexError, updates, [])
      | building # parts \<Rightarrow>
          (case su_descend_to_folder (drive e) su_DRIVE_ROOT_FOLDER_ID building of
             None \<Rightarrow> (None, updates, [Descend su_DRIVE_ROOT_FOLDER_ID building])
           | Some b_id \<Rightarrow>
               if b_id = [] then (None, updates, [Descend su_DRIVE_ROOT_FOLDER_ID building])
               else (case su_choose_class_folder_with_content (drive e) b_id class_name of
                       None \<Rightarrow>
                         (None, updates,
                          [Descend su_DRIVE_ROOT_FOLDER_ID building, Choose b_id class_name])
                     | Some c_id \<Rightarrow>
                         if c_id = [] \<or> \<not> (case class_map (su_keyize (Some class_name)) of
                                              None \<Rightarrow> False | Some row \<Rightarrow> row \<noteq> 0)
                         then (None, updates,
                               [Descend su_DRIVE_ROOT_FOLDER_ID building, Choose b_id class_name])
                         else (case su_index_loop e su_INDEX_TO_DRIVE_PATH c_id
                                      (case class_map (su_keyize (Some class_name)) of
                                         None \<Rightarrow> 0 | Some row \<Rightarrow> row)
                                      su_INDEX_TO_COL updates of
                                 (x, us, evs) \<Rightarrow>
                                   (x, us,
                                    [Descend su_DRIVE_ROOT_FOLDER_ID building,
                                     Choose b_id class_name] @ evs)))))"

fun su_class_loop :: "env \<Rightarrow> (string \<rightharpoonup> nat) \<Rightarrow> string list \<Rightarrow> update list
    \<Rightarrow> exn option \<times> update list \<times> event list" where
  "su_class_loop e class_map [] updates = (None, updates, [])"
| "su_class_loop e class_map (class_name # rest) updates =
     (case su_class_step e class_map class_name updates of
        (Some x, us, evs) \<Rightarrow> (Some x, us, evs)
      | (None, us, evs) \<Rightarrow>
          (case su_class_loop e class_map rest us of (x, us', evs') \<Rightarrow> (x, us', evs @ evs')))"

definition su_main :: "env \<Rightarrow> outcome \<times> event list" where
  "su_main e =
     (case su_map_sheet_rows e of
        (None, evs) \<Rightarrow> (SysExit 1, evs)
      | (Some class_map, evs) \<Rightarrow>
          (case su_class_loop e class_map su_TARGET_CLASSES [] of
             (Some x, updates, evs') \<Rightarrow> (Uncaught x, evs @ evs')
           | (None, updates, evs') \<Rightarrow>
               if updates \<noteq> []
               then (Returned, evs @ evs' @ [BatchUpdate updates, Print (Wrote (length updates))])
               else (Returned, evs @ evs' @ [Print NoUpdates])))"

subsection \<open>\<open>Sheet_update_new_remote.py\<close>\<close>

definition nr_DRIVE_ROOT_FOLDER_ID :: string where
  "nr_DRIVE_ROOT_FOLDER_ID = ''1T4lh501yhxxfhmzRMwLpBqKt5kpH4U2f''"

definition nr_TARGET_CLASSES :: "string list" where
  "nr_TARGET_CLASSES = [''SOS B37'']"

definition nr_REMOTE_MAP :: "(string \<times> (string \<times> string \<times> string) list) list" where
  "nr_REMOTE_MAP =
     [(''Remote3'', [(''000'', ''Z'', ''Left''), (''001'', ''AA'', ''Center''),
                     (''002'', ''AB'', ''Right'')]),
      (''Remote4'', [(''003'', ''AC'', ''Left''), (''004'', ''AD'', ''Center''),
                     (''005'', ''AE'', ''Right'')])]"

definition nr_descend_to_folder :: "drive \<Rightarrow> string \<Rightarrow> string \<Rightarrow> (string \<times> string) option" where
  "nr_descend_to_folder svc parent_id name =
     map_option (\<lambda>f. (file_id f, file_name f))
       (find (\<lambda>f. is_folder f \<and> nr_keyize (Some (file_name f)) = nr_keyize (Some name))
          (list_children svc parent_id))"

definition nr_list_named_child_folders :: "drive \<Rightarrow> string \<Rightarrow> string \<Rightarrow> drive_file list" where
  "nr_list_named_child_folders svc parent_id name =
     filter (\<lambda>f. is_folder f \<and> nr_keyize (Some (file_name f)) = nr_keyize (Some name))
       (list_children svc parent_id)"

text \<open>
  The inner loop of \<open>_folder_has_any_report\<close> here tests and enqueues child by child;
  \<open>None\<close> is its \<open>return True\<close>, otherwise it gives the deque it leaves.
\<close>

fun nr_scan_children :: "drive_file list \<Rightarrow> nat \<Rightarrow> (string \<times> nat) list
    \<Rightarrow> (string \<times> nat) list option" where
  "nr_scan_children [] d dq = Some dq"
| "nr_scan_children (ch # chs) d dq =
     (if \<not> is_folder ch \<and> sheet_index_search (file_name ch) \<noteq> None then None
      else if is_folder ch then nr_scan_children chs d (dq @ [(file_id ch, d + 1)])
      else nr_scan_children chs d dq)"

lemma nr_scan_children_eq:
  "nr_scan_children chs d dq =
     (if list_ex (\<lambda>ch. \<not> is_folder ch \<and> sheet_index_search (file_name ch) \<noteq> None) chs
      then None
      else Some (dq @ map (\<lambda>ch. (file_id ch, d + 1)) (filter is_folder chs)))"
  by (induction chs arbitrary: dq) simp_all

function nr_probe :: "drive \<Rightarrow> nat \<Rightarrow> (string \<times> nat) list \<Rightarrow> bool" where
  "nr_probe svc max_depth [] = False"
| "nr_probe svc max_depth ((fid, d) # dq) =
     (if d > max_depth then nr_probe svc max_depth dq
      else (case nr_scan_children (list_children svc fid) d dq of
              None \<Rightarrow> True
            | Some dq' \<Rightarrow> nr_probe svc max_depth dq'))"
  by pat_completeness auto
termination
  by (relation "measure (\<lambda>(svc, md, q).
        sum_list (map (\<lambda>(f, d). queue_weight svc (Suc md - d) f) q))")
     (auto simp: Suc_diff_le list_children_def comp_def nr_scan_children_eq split: if_splits)

definition nr_folder_has_any_report :: "drive \<Rightarrow> string \<Rightarrow> nat \<Rightarrow> bool" where
  "nr_folder_has_any_report svc folder_id max_depth = nr_probe svc max_depth [(folder_id, 0)]"

fun nr_first_with_report :: "drive \<Rightarrow> drive_file list \<Rightarrow> string option" where
  "nr_first_with_report svc [] = None"
| "nr_first_with_report svc (cand # rest) =
     (if nr_folder_has_any_report svc (file_id cand) 6 then Some (file_id cand)
      else nr_first_with_report svc rest)"

definition nr_choose_class_folder_with_content :: "drive \<Rightarrow> string \<Rightarrow> string \<Rightarrow> string option"
  where
  "nr_choose_class_folder_with_content svc parent_id class_name =
     (case nr_list_named_child_folders svc parent_id class_name of
        [] \<Rightarrow> None
      | first # others \<Rightarrow>
          (case nr_first_with_report svc (first # others) of
             Some fid \<Rightarrow> Some fid
           | None \<Rightarrow> Some (file_id first)))"

definition nr_is_target_report_for_index :: "string \<Rightarrow> string \<Rightarrow> bool" where
  "nr_is_target_report_for_index name idx =
     (case sheet_index_search name of None \<Rightarrow> False | Some g \<Rightarrow> g = idx)"

text \<open>
  The generator \<open>list_files_recursive\<close>, as the list of what it yields in order: the
  entries of each listed folder that are not folders; a folder entry is enqueued only
  while the depth of its parent is below \<open>max_depth\<close>.
\<close>

lemma queue_weight_step:
  "d < md \<Longrightarrow> queue_weight svc (md - d) fid =
     Suc (sum_list (map (\<lambda>ch. queue_weight svc (md - Suc d) (file_id ch))
                      (filter is_folder (svc fid))))"
  using Suc_diff_Suc [of d md] by (metis queue_weight.simps(2))

function nr_files_loop :: "drive \<Rightarrow> nat \<Rightarrow> (string \<times> nat) list \<Rightarrow> drive_file list" where
  "nr_files_loop svc max_depth [] = []"
| "nr_files_loop svc max_depth ((fid, d) # dq) =
     filter (\<lambda>ch. \<not> is_folder ch) (list_children svc fid)
     @ nr_files_loop svc max_depth
         (dq @ (if d < max_depth
                then map (\<lambda>ch. (file_id ch, d + 1)) (filter is_folder (list_children svc fid))
                else []))"
  by pat_completeness auto
termination
  by (relation "measure (\<lambda>(svc, md, q).
        sum_list (map (\<lambda>(f, d). queue_weight svc (md - d) f) q))")
     (auto simp: queue_weight_step list_children_def comp_def)

definition nr_list_files_recursive :: "drive \<Rightarrow> string \<Rightarrow> nat \<Rightarrow> drive_file list" where
  "nr_list_files_recursive svc parent_id max_depth = nr_files_loop svc max_depth [(parent_id, 0)]"

text \<open>
  \<open>find_report_file_by_index\<close>: \<open>Inl ValueError\<close> when \<open>int(idx)\<close> raises; otherwise the id
  and name of the last entry of the matches sorted by name (the sort is stable), or
  \<open>None\<close> for \<open>(None, None)\<close>.
\<close>

definition nr_find_report_file_by_index :: "drive \<Rightarrow> string \<Rightarrow> string
    \<Rightarrow> exn + (string \<times> string) option" where
  "nr_find_report_file_by_index svc folder_id idx =
     (case py_int idx of
        None \<Rightarrow> Inl ValueError
      | Some n \<Rightarrow>
          (let matches = filter (\<lambda>f. nr_is_target_report_for_index (file_name f) (format_03d n))
                           (nr_list_files_recursive svc folder_id 2)
           in if matches = [] then Inr None
              else Inr (Some (file_id (last (sort_key file_name matches)),
                              file_name (last (sort_key file_name matches))))))"

definition nr_map_sheet_rows :: "env \<Rightarrow> (string \<rightharpoonup> nat) option \<times> event list" where
  "nr_map_sheet_rows e =
     (case column_a e of
        HttpError \<Rightarrow> (None, [ValuesGet ROWS_RANGE, Print ApiError])
      | Ok resp \<Rightarrow> (Some (rows_from nr_keyize 4 resp Map.empty), [ValuesGet ROWS_RANGE]))"

text \<open>The loop over one remote folder's indices in \<open>process_one_classroom\<close>.\<close>

fun nr_slm_loop :: "env \<Rightarrow> string \<Rightarrow> nat \<Rightarrow> (string \<times> string \<times> string) list \<Rightarrow> update list
    \<Rightarrow> exn option \<times> update list \<times> event list" where
  "nr_slm_loop e rid row [] updates = (None, updates, [])"
| "nr_slm_loop e rid row ((idx, col, label) # rest) updates =
     (case nr_find_report_file_by_index (drive e) rid idx of
        Inl x \<Rightarrow> (Some x, updates, [FindReportByIndex rid idx])
      | Inr found \<Rightarrow>
          (case (case found of
                   None \<Rightarrow> ([], [FindReportByIndex rid idx])
                 | Some (fid, fname) \<Rightarrow>
                     if fid = [] then ([], [FindReportByIndex rid idx])
                     else (case extract_laeq (file_text e fid) of
                             None \<Rightarrow> ([], [FindReportByIndex rid idx, Download fid])
                           | Some laeq \<Rightarrow>
                               if laeq = [] then ([], [FindReportByIndex rid idx, Download fid])
                               else ([(SHEET_NAME @ ''!'' @ col @ str_nat row, laeq)],
                                     [FindReportByIndex rid idx, Download fid]))) of
             (new, evs) \<Rightarrow>
               (case nr_slm_loop e rid row rest (updates @ new) of
                  (x, us, evs') \<Rightarrow> (x, us, evs @ evs'))))"

fun nr_remote_loop :: "env \<Rightarrow> string \<Rightarrow> nat \<Rightarrow> (string \<times> (string \<times> string \<times> string) list) list
    \<Rightarrow> update list \<Rightarrow> exn option \<times> update list \<times> event list" where
  "nr_remote_loop e c_id row [] updates = (None, updates, [])"
| "nr_remote_loop e c_id row ((remote_name, slm_map) # rest) updates =
     (case (case nr_descend_to_folder (drive e) c_id remote_name of
              None \<Rightarrow> (None, updates, [Descend c_id remote_name])
            | Some (rid, rname) \<Rightarrow>
                if rid = [] then (None, updates, [Descend c_id remote_name])
                else (case nr_slm_loop e rid row slm_map updates of
                        (x, us, evs) \<Rightarrow> (x, us, Descend c_id remote_name # evs))) of
        (Some x, us, evs) \<Rightarrow> (Some x, us, evs)
      | (None, us, evs) \<Rightarrow>
          (case nr_remote_loop e c_id row rest us of (x, us', evs') \<Rightarrow> (x, us', evs @ evs')))"

definition nr_process_one_classroom :: "env \<Rightarrow> string \<Rightarrow> string \<Rightarrow> nat \<Rightarrow> update list
    \<Rightarrow> exn option \<times> update list \<times> event list" where
  "nr_process_one_classroom e b_id class_name row updates =
     (case nr_choose_class_folder_with_content (drive e) b_id class_name of
        None \<Rightarrow> (None, updates, [Choose b_id class_name])
      | Some c_id \<Rightarrow>
          if c_id = [] then (None, updates, [Choose b_id class_name])
          else (case nr_remote_loop e c_id row nr_REMOTE_MAP updates of
                  (x, us, evs) \<Rightarrow> (x, us, Choose b_id class_name # evs)))"

text \<open>Branch 1 of \<open>main\<close>: the loop over the configured classes.\<close>

fun nr_target_loop :: "env \<Rightarrow> (string \<rightharpoonup> nat) \<Rightarrow> string list \<Rightarrow> update list
    \<Rightarrow> exn option \<times> update list \<times> event list" where
  "nr_target_loop e class_map [] updates = (None, updates, [])"
| "nr_target_loop e class_map (class_name # rest) updates =
     (case (case class_map (nr_keyize (Some class_name)) of
              None \<Rightarrow> (None, updates, [])
            | Some row \<Rightarrow>
                if row = 0 then (None, updates, [])
                else (case py_split class_name of
                        [] \<Rightarrow> (Some IndexError, updates, [])
                      | building_token # parts \<Rightarrow>
                          (case nr_descend_to_folder (drive e) nr_DRIVE_ROOT_FOLDER_ID
                                  building_token of
                             None \<Rightarrow>
                               (None, updates, [Descend nr_DRIVE_ROOT_FOLDER_ID building_token])
                           | Some (b_id, bname) \<Rightarrow>
                               if b_id = [] then
                                 (None, updates, [Descend nr_DRIVE_ROOT_FOLDER_ID building_token])
                               else (case nr_process_one_classroom e b_id class_name row updates of
                                       (x, us, evs) \<Rightarrow>
                                         (x, us,
                                          Descend nr_DRIVE_ROOT_FOLDER_ID building_token # evs))))) of
        (Some x, us, evs) \<Rightarrow> (Some x, us, evs)
      | (None, us, evs) \<Rightarrow>
          (case nr_target_loop e class_map rest us of (x, us', evs') \<Rightarrow> (x, us', evs @ evs')))"

text \<open>Branch 2 of \<open>main\<close>: every folder under every folder of the root.\<close>

fun nr_classroom_loop :: "env \<Rightarrow> (string \<rightharpoonup> nat) \<Rightarrow> string \<Rightarrow> drive_file list \<Rightarrow> update list
    \<Rightarrow> exn option \<times> update list \<times> event list" where
  "nr_classroom_loop e class_map b_id [] updates = (None, updates, [])"
| "nr_classroom_loop e class_map b_id (classroom # rest) updates =
     (case (if \<not> is_folder classroom then (None, updates, [])
            else (case class_map (nr_keyize (Some (file_name classroom))) of
                    None \<Rightarrow> (None, updates, [])
                  | Some row \<Rightarrow>
                      if row = 0 then (None, updates, [])
                      else nr_process_one_classroom e b_id (file_name classroom) row updates)) of
        (Some x, us, evs) \<Rightarrow> (Some x, us, evs)
      | (None, us, evs) \<Rightarrow>
          (case nr_classroom_loop e class_map b_id rest us of
             (x, us', evs') \<Rightarrow> (x, us', evs @ evs')))"

fun nr_building_loop :: "env \<Rightarrow> (string \<rightharpoonup> nat) \<Rightarrow> drive_file list \<Rightarrow> update list
    \<Rightarrow> exn option \<times> update list \<times> event list" where
  "nr_building_loop e class_map [] updates = (None, updates, [])"
| "nr_building_loop e class_map (building # rest) updates =
     (case (if \<not> is_folder building then (None, updates, [])
            else (case nr_classroom_loop e class_map (file_id building)
                         (list_children (drive e) (file_id building)) updates of
                    (x, us, evs) \<Rightarrow> (x, us, ListChildren (file_id building) # evs))) of
        (Some x, us, evs) \<Rightarrow> (Some x, us, evs)
      | (None, us, evs) \<Rightarrow>
          (case nr_building_loop e class_map rest us of
             (x, us', evs') \<Rightarrow> (x, us', evs @ evs')))"

definition nr_collect :: "env \<Rightarrow> (string \<rightharpoonup> nat) \<Rightarrow> exn option \<times> update list \<times> event list" where
  "nr_collect e class_map =
     (if nr_TARGET_CLASSES \<noteq> [] then nr_target_loop e class_map nr_TARGET_CLASSES []
      else (case nr_building_loop e class_map
                   (list_children (drive e) nr_DRIVE_ROOT_FOLDER_ID) [] of
              (x, us, evs) \<Rightarrow> (x, us, ListChildren nr_DRIVE_ROOT_FOLDER_ID # evs)))"

definition nr_main :: "env \<Rightarrow> outcome \<times> event list" where
  "nr_main e =
     (case nr_map_sheet_rows e of
        (None, evs) \<Rightarrow> (SysExit 1, evs)
      | (Some class_map, evs) \<Rightarrow>
          (case nr_collect e class_map of
             (Some x, updates, evs') \<Rightarrow> (Uncaught x, evs @ evs')
           | (None, updates, evs') \<Rightarrow>
               if updates \<noteq> []
               then (Returned, evs @ evs' @ [BatchUpdate updates, Print (Wrote (length updates))])
               else (Returned, evs @ evs' @ [Print NoUpdates])))"

section \<open>The upload scripts\<close>


datatype api_call = ListFolders string string | CreateFolder string string

record 'r upload_state =
  folder_cache :: "(string \<times> string) \<rightharpoonup> string"
  remote :: 'r
  calls :: "api_call list"






text \<open>
  \<open>INDEX_RE.search(f.name)\<close> of the upload scripts: group 1 of the leftmost match of
  \<open>SLM[_\-](\d{3})\<close>.
\<close>

fun upload_index_search :: "string \<Rightarrow> string option" where
  "upload_index_search [] = None"
| "upload_index_search (c # cs) =
     (if re_match upload_index_pattern (c # cs) then Some (take 3 (drop 4 (c # cs)))
      else upload_index_search cs)"

definition REMOTE3_NAME :: string where "REMOTE3_NAME = ''Remote3''"
definition REMOTE4_NAME :: string where "REMOTE4_NAME = ''Remote4''"
definition MICROPHONE_NAME :: string where "MICROPHONE_NAME = ''Microphone''"

definition route_index_to_folder :: "string \<Rightarrow> string option" where
  "route_index_to_folder idx_str =
     (case py_int idx_str of
        None \<Rightarrow> None
      | Some n \<Rightarrow>
          if 0 \<le> n \<and> n \<le> 2 then Some REMOTE3_NAME
          else if 3 \<le> n \<and> n \<le> 5 then Some REMOTE4_NAME
          else if n > 5 then Some MICROPHONE_NAME
          else None)"

text \<open>
  The same function with its five \<open>return\<close> statements told apart: the one of the
  \<open>except\<close> clause, the three that name a folder, and the last one.
\<close>

datatype route_exit = ExceptReturn | FolderReturn string | FinalReturn

definition route_index_exit :: "string \<Rightarrow> route_exit" where
  "route_index_exit idx_str =
     (case py_int idx_str of
        None \<Rightarrow> ExceptReturn
      | Some n \<Rightarrow>
          if 0 \<le> n \<and> n \<le> 2 then FolderReturn REMOTE3_NAME
          else if 3 \<le> n \<and> n \<le> 5 then FolderReturn REMOTE4_NAME
          else if n > 5 then FolderReturn MICROPHONE_NAME
          else FinalReturn)"

section \<open>Example inputs\<close>

text \<open>
  A building folder \<open>b\<close> with two class folders of the same normalised name; only the
  second holds a report, two levels down.
\<close>

definition example_drive :: drive where
  "example_drive p =
     (if p = ''b'' then
        [\<lparr>file_id = ''c1'', file_name = ''Class A'', mimeType = FOLDER_MIME\<rparr>,
         \<lparr>file_id = ''n1'', file_name = ''notes.txt'', mimeType = ''text/plain''\<rparr>,
         \<lparr>file_id = ''c2'', file_name = ''class_a'', mimeType = FOLDER_MIME\<rparr>]
      else if p = ''c1'' then
        [\<lparr>file_id = ''s1'', file_name = ''Local'', mimeType = FOLDER_MIME\<rparr>]
      else if p = ''s1'' then
        [\<lparr>file_id = ''r1'', file_name = ''readme.txt'', mimeType = ''text/plain''\<rparr>]
      else if p = ''c2'' then
        [\<lparr>file_id = ''s2'', file_name = ''Local'', mimeType = FOLDER_MIME\<rparr>]
      else if p = ''s2'' then
        [\<lparr>file_id = ''r2'', file_name = ''X_003_123_Report.txt'', mimeType = ''text/plain''\<rparr>]
      else [])"

text \<open>
  A report: a heading, four lines that each fail one of the four token tests, a line
  with four tokens only, a data line, and a later data line.
\<close>

definition example_report :: string where
  "example_report =
     ''Start End LAeq'' @ [CHR 0x0A]
     @ ''2024-01-0x 00:00:00 2024-01-01 01:00:00 11.1'' @ [CHR 0x0A]
     @ ''2024-01-01 00:00 2024-01-01 01:00:00 22.2'' @ [CHR 0x0A]
     @ ''2024-01-01 00:00:00 01/01/2024 01:00:00 33.3'' @ [CHR 0x0A]
     @ ''2024-01-01 00:00:00 2024-01-01 01-00-00 44.4'' @ [CHR 0x0A]
     @ ''2024-01-01 00:00:00 2024-01-01 01:00:00'' @ [CHR 0x0A]
     @ ''2024-01-01 00:00:00 2024-01-01 01:00:00 55.3 extra'' @ [CHR 0x0D, CHR 0x0A]
     @ ''2024-01-02 00:00:00 2024-01-02 01:00:00 99.9'' @ [CHR 0x0A]"

text \<open>A report whose only line has a first token that goes on after the date.\<close>

definition example_long_token :: string where
  "example_long_token = ''2024-01-01T 00:00:00 2024-01-01 01:00:00 55.3''"

text \<open>
  The entries that are not folders and are listed in the folder \<open>r\<close> or in a folder
  reached through at most \<open>bound\<close> folders below it.
\<close>

definition files_within :: "drive \<Rightarrow> string \<Rightarrow> nat \<Rightarrow> drive_file set" where
  "files_within svc r bound =
     {f. \<exists>k g. k \<le> bound \<and> folder_at_depth svc r k g \<and> f \<in> set (svc g) \<and> \<not> is_folder f}"

text \<open>A remote folder \<open>r3\<close> with two reports of index \<open>000\<close>, one of them a level down,
  and a report of another index.\<close>

definition example_remote :: drive where
  "example_remote p =
     (if p = ''r3'' then
        [\<lparr>file_id = ''x'', file_name = ''X_000_123_Report.txt'', mimeType = ''text/plain''\<rparr>,
         \<lparr>file_id = ''d1'', file_name = ''older'', mimeType = FOLDER_MIME\<rparr>]
      else if p = ''d1'' then
        [\<lparr>file_id = ''y'', file_name = ''Y_000_123_Report.txt'', mimeType = ''text/plain''\<rparr>,
         \<lparr>file_id = ''z'', file_name = ''Z_001_123_Report.txt'', mimeType = ''text/plain''\<rparr>]
      else [])"

text \<open>
  What a run has collected when its traversal ends: the list \<open>updates\<close> and the calls made
  up to there. \<open>None\<close> when \<open>map_sheet_rows\<close> left the process before the traversal.
\<close>

definition su_collection :: "env \<Rightarrow> (update list \<times> event list) option" where
  "su_collection e =
     (case su_map_sheet_rows e of
        (None, evs) \<Rightarrow> None
      | (Some class_map, evs) \<Rightarrow>
          (case su_class_loop e class_map su_TARGET_CLASSES [] of
             (x, updates, evs') \<Rightarrow> Some (updates, evs @ evs')))"

definition nr_collection :: "env \<Rightarrow> (update list \<times> event list) option" where
  "nr_collection e =
     (case nr_map_sheet_rows e of
        (None, evs) \<Rightarrow> None
      | (Some class_map, evs) \<Rightarrow>
          (case nr_collect e class_map of
             (x, updates, evs') \<Rightarrow> Some (updates, evs @ evs')))"

text \<open>
  A spreadsheet with the tab \<open>Main Sheet\<close>, the class \<open>WPH 400\<close> in row 10 and the class
  \<open>SOS B37\<close> in row 5, and a tree with one report for each script: under the first root
  the path of index \<open>003\<close> with the folder \<open>Back 1\<close> spelled with a space, and under the
  second root a folder \<open>Remote3\<close> with a report of index \<open>001\<close>.
\<close>

definition example_tree :: drive where
  "example_tree p =
     (if p = su_DRIVE_ROOT_FOLDER_ID then
        [\<lparr>file_id = ''B'', file_name = ''WPH'', mimeType = FOLDER_MIME\<rparr>]
      else if p = ''B'' then
        [\<lparr>file_id = ''C'', file_name = ''WPH 400'', mimeType = FOLDER_MIME\<rparr>]
      else if p = ''C'' then
        [\<lparr>file_id = ''L'', file_name = ''Local'', mimeType = FOLDER_MIME\<rparr>]
      else if p = ''L'' then
        [\<lparr>file_id = ''WA'', file_name = ''Without Audio'', mimeType = FOLDER_MIME\<rparr>]
      else if p = ''WA'' then
        [\<lparr>file_id = ''BK'', file_name = ''Back 1'', mimeType = FOLDER_MIME\<rparr>]
      else if p = ''BK'' then
        [\<lparr>file_id = ''R'', file_name = ''run_003_123_Report.txt'', mimeType = ''text/plain''\<rparr>]
      else if p = nr_DRIVE_ROOT_FOLDER_ID then
        [\<lparr>file_id = ''NB'', file_name = ''SOS'', mimeType = FOLDER_MIME\<rparr>]
      else if p = ''NB'' then
        [\<lparr>file_id = ''NC'', file_name = ''SOS B37'', mimeType = FOLDER_MIME\<rparr>]
      else if p = ''NC'' then
        [\<lparr>file_id = ''N3'', file_name = ''Remote3'', mimeType = FOLDER_MIME\<rparr>]
      else if p = ''N3'' then
        [\<lparr>file_id = ''NR'', file_name = ''slm_001_123_Report.txt'', mimeType = ''text/plain''\<rparr>]
      else [])"

definition example_env :: env where
  "example_env =
     \<lparr>drive = example_tree,
      file_text = (\<lambda>fid. if fid = ''R'' then ''2024-01-01 00:00:00 2024-01-01 01:00:00 42.1''
                         else if fid = ''NR'' then ''2024-01-01 00:00:00 2024-01-01 01:00:00 38.4''
                         else []),
      spreadsheet_titles = Ok [''Notes'', ''Main Sheet''],
      column_a = Ok [[''KAP 113''], [''SOS B37''], [], [''''], [''SGM 101''], [''THH 101''],
                     [''WPH 400'']]\<rparr>"

text \<open>The same with a spreadsheet that has no tab \<open>Main Sheet\<close> and refuses the range.\<close>

definition example_env_no_tab :: env where
  "example_env_no_tab = example_env\<lparr>spreadsheet_titles := Ok [''Notes''], column_a := HttpError\<rparr>"

text \<open>A folder \<open>P\<close> whose only entry is a folder named \<open>Front 1\<close>, with a space.\<close>

definition example_front :: drive where
  "example_front p =
     (if p = ''P'' then [\<lparr>file_id = ''F1'', file_name = ''Front 1'', mimeType = FOLDER_MIME\<rparr>]
      else [])"



section \<open>Facts about the normalisers\<close>

lemma replace_from_single:
  "replace_from [a] [b] s = map (\<lambda>c. if c = a then b else c) s"
  by (induction s) auto

lemma py_replace_single:
  "py_replace [a] [b] s = map (\<lambda>c. if c = a then b else c) s"
  by (simp add: py_replace_def replace_from_single)

lemma underscore_not_alnum: "\<not> is_alnum (CHR ''_'')"
  by (simp add: is_alnum_def is_upper_def is_lower_def is_digit_def)

lemma space_not_alnum: "\<not> is_alnum (CHR '' '')"
  by (simp add: is_alnum_def is_upper_def is_lower_def is_digit_def)

lemma strip_replace_underscore:
  "strip_non_alnum (py_replace ''_'' '' '' s) = strip_non_alnum s"
  unfolding strip_non_alnum_def py_replace_single
  by (induction s) (auto simp: underscore_not_alnum space_not_alnum)

lemma nr_keyize_Some: "nr_keyize (Some n) = py_upper (strip_non_alnum n)"
  by (simp add: nr_keyize_def strip_replace_underscore) (simp add: py_upper_def strip_non_alnum_def)

lemma upper_char_alnum: "is_alnum c \<Longrightarrow> is_alnum (upper_char c)"
  by (auto simp: is_alnum_def is_upper_def is_lower_def is_digit_def upper_char_def)

lemma upper_char_idem: "upper_char (upper_char c) = upper_char c"
  by (auto simp: is_lower_def upper_char_def)

lemma strip_upper_strip:
  "strip_non_alnum (py_upper (strip_non_alnum s)) = py_upper (strip_non_alnum s)"
  unfolding strip_non_alnum_def py_upper_def
  by (induction s) (auto simp: upper_char_alnum)

lemma py_upper_idem: "py_upper (py_upper s) = py_upper s"
  by (simp add: py_upper_def upper_char_idem)

lemma nr_keyize_idem: "nr_keyize (Some (nr_keyize (Some x))) = nr_keyize (Some x)"
  by (simp add: nr_keyize_Some strip_upper_strip py_upper_idem)

lemma nr_keyize_same_name: "same_name a b \<Longrightarrow> nr_keyize (Some a) = nr_keyize (Some b)"
  unfolding nr_keyize_Some strip_non_alnum_def py_upper_def
  by (induction rule: same_name.induct) auto

lemma same_name_refl: "same_name s s"
proof (induction s)
  case Nil
  show ?case by (rule sn_nil)
next
  case (Cons c s)
  show ?case
  proof (cases "is_alnum c")
    case True
    with Cons show ?thesis by (simp add: sn_letter)
  next
    case False
    with Cons show ?thesis by (blast intro: sn_left sn_right)
  qed
qed

lemma replace_from_absent: "old \<noteq> [] \<Longrightarrow> hd old \<notin> set s \<Longrightarrow> replace_from old new s = s"
proof (induction s)
  case Nil
  show ?case by simp
next
  case (Cons c s)
  from Cons.prems have "take (length old) (c # s) \<noteq> old"
    by (cases old) auto
  with Cons show ?case by simp
qed

lemma su_replace_old_hd: "su_replace_old \<noteq> [] \<and> hd su_replace_old = CHR '',''"
  by (simp add: su_replace_old_def)

text \<open>On a name without a comma the two normalisers agree.\<close>

lemma su_keyize_without_comma:
  "CHR '','' \<notin> set n \<Longrightarrow> su_keyize (Some n) = nr_keyize (Some n)"
  using replace_from_absent [of su_replace_old n "[CHR 0x27]"] su_replace_old_hd
  by (simp add: su_keyize_def nr_keyize_def py_replace_def)

lemma comma_not_alnum: "\<not> is_alnum (CHR '','')"
  by (simp add: is_alnum_def is_upper_def is_lower_def is_digit_def)

lemma su_keyize_alnum: "c \<in> set (su_keyize x) \<Longrightarrow> is_alnum c"
  by (cases x) (auto simp: su_keyize_def py_upper_def strip_non_alnum_def upper_char_alnum
      split: if_splits)

text \<open>Both normalisers are total functions, send \<open>None\<close> and the empty string to the
  empty key, and are idempotent.\<close>

lemma keyize_empty:
  "su_keyize None = [] \<and> su_keyize (Some []) = []
   \<and> nr_keyize None = [] \<and> nr_keyize (Some []) = []"
  by (simp add: su_keyize_def nr_keyize_def)

lemma su_keyize_idem: "su_keyize (Some (su_keyize x)) = su_keyize x"
proof -
  have nc: "CHR '','' \<notin> set (su_keyize x)" using su_keyize_alnum comma_not_alnum by blast
  have "su_keyize (Some (su_keyize x)) = nr_keyize (Some (su_keyize x))"
    using nc by (rule su_keyize_without_comma)
  also have "\<dots> = py_upper (strip_non_alnum (su_keyize x))" by (rule nr_keyize_Some)
  also have "\<dots> = su_keyize x"
  proof (cases x)
    case None
    then show ?thesis by (simp add: su_keyize_def py_upper_def strip_non_alnum_def)
  next
    case (Some n)
    show ?thesis
    proof (cases "n = []")
      case True
      with Some show ?thesis by (simp add: su_keyize_def py_upper_def strip_non_alnum_def)
    next
      case False
      with Some show ?thesis by (simp add: su_keyize_def strip_upper_strip py_upper_idem)
    qed
  qed
  finally show ?thesis .
qed

text \<open>
  Claim C4. The normaliser is total, sends \<open>None\<close> and the empty string to the empty key,
  is idempotent, and gives the same key to names that differ only by letter case,
  underscore against space, or punctuation. The first three hold for both scripts
  (\<open>keyize_empty\<close>, \<open>su_keyize_idem\<close>, \<open>nr_keyize_idem\<close>) and the last holds for
  \<open>Sheet_update_new_remote.py\<close> (\<open>nr_keyize_same_name\<close>). In \<open>Sheet_Update_runt_this.py\<close>
  the last one fails: the name \<^verbatim>\<open>, "'").replace(\<close> and the same name without its comma
  differ by one punctuation character, and their keys are the empty key and \<open>REPLACE\<close>.
\<close>

theorem su_keyize_breaks_on_punctuation:
  "same_name su_replace_old (tl su_replace_old)
   \<and> su_keyize (Some su_replace_old) = []
   \<and> su_keyize (Some (tl su_replace_old)) = ''REPLACE''"
proof -
  have "same_name su_replace_old (tl su_replace_old)"
    unfolding su_replace_old_def using same_name_refl comma_not_alnum
    by (simp add: sn_left)
  moreover have "su_keyize (Some su_replace_old) = []" by code_simp
  moreover have "su_keyize (Some (tl su_replace_old)) = ''REPLACE''" by code_simp
  ultimately show ?thesis by blast
qed

text \<open>
  Claim C9. The two normalisers return the same key for every input. They do not: on the
  name \<^verbatim>\<open>, "'").replace(\<close> the one of \<open>Sheet_Update_runt_this.py\<close> returns the empty key
  and the one of \<open>Sheet_update_new_remote.py\<close> returns \<open>REPLACE\<close>. They agree on every name
  without a comma (\<open>su_keyize_without_comma\<close>).
\<close>

theorem keyize_variants_differ:
  "su_keyize (Some su_replace_old) = [] \<and> nr_keyize (Some su_replace_old) = ''REPLACE''"
  by code_simp

section \<open>Facts about the choice of the class folder\<close>

lemma folder_at_depth_0: "folder_at_depth svc r 0 g = (g = r)"
  by (auto elim: folder_at_depth.cases intro: folder_at_depth.intros)

lemma folder_at_depth_Suc:
  "folder_at_depth svc r (Suc k) g =
     (\<exists>ch. ch \<in> set (svc r) \<and> is_folder ch \<and> folder_at_depth svc (file_id ch) k g)"
  by (auto elim: folder_at_depth.cases intro: folder_at_depth.intros)

lemma has_report_within_0:
  "has_report_within svc r 0 =
     list_ex (\<lambda>ch. \<not> is_folder ch \<and> su_is_report_file (file_name ch)) (svc r)"
  by (auto simp: has_report_within_def folder_at_depth_0 list_ex_iff)

lemma has_report_within_Suc:
  "has_report_within svc r (Suc n) =
     (list_ex (\<lambda>ch. \<not> is_folder ch \<and> su_is_report_file (file_name ch)) (svc r)
      \<or> (\<exists>ch. ch \<in> set (svc r) \<and> is_folder ch \<and> has_report_within svc (file_id ch) n))"
proof
  assume "has_report_within svc r (Suc n)"
  then obtain k g f where kgf: "k \<le> Suc n" "folder_at_depth svc r k g" "f \<in> set (svc g)"
      "\<not> is_folder f" "su_is_report_file (file_name f)"
    unfolding has_report_within_def by blast
  show "list_ex (\<lambda>ch. \<not> is_folder ch \<and> su_is_report_file (file_name ch)) (svc r)
      \<or> (\<exists>ch. ch \<in> set (svc r) \<and> is_folder ch \<and> has_report_within svc (file_id ch) n)"
  proof (cases k)
    case 0
    with kgf show ?thesis by (auto simp: folder_at_depth_0 list_ex_iff)
  next
    case (Suc j)
    with kgf obtain ch where "ch \<in> set (svc r)" "is_folder ch" "folder_at_depth svc (file_id ch) j g"
      by (auto simp: folder_at_depth_Suc)
    moreover from Suc kgf have "j \<le> n" by simp
    ultimately have "\<exists>ch. ch \<in> set (svc r) \<and> is_folder ch \<and> has_report_within svc (file_id ch) n"
      unfolding has_report_within_def using kgf by blast
    then show ?thesis by blast
  qed
next
  assume "list_ex (\<lambda>ch. \<not> is_folder ch \<and> su_is_report_file (file_name ch)) (svc r)
      \<or> (\<exists>ch. ch \<in> set (svc r) \<and> is_folder ch \<and> has_report_within svc (file_id ch) n)"
  then show "has_report_within svc r (Suc n)"
  proof
    assume "list_ex (\<lambda>ch. \<not> is_folder ch \<and> su_is_report_file (file_name ch)) (svc r)"
    then obtain f where "f \<in> set (svc r)" "\<not> is_folder f" "su_is_report_file (file_name f)"
      by (auto simp: list_ex_iff)
    then show ?thesis
      unfolding has_report_within_def using folder_at_depth.here [of svc r] by blast
  next
    assume "\<exists>ch. ch \<in> set (svc r) \<and> is_folder ch \<and> has_report_within svc (file_id ch) n"
    then obtain ch k g f where ch: "ch \<in> set (svc r)" "is_folder ch"
      and kgf: "k \<le> n" "folder_at_depth svc (file_id ch) k g" "f \<in> set (svc g)"
        "\<not> is_folder f" "su_is_report_file (file_name f)"
      unfolding has_report_within_def by blast
    from ch kgf have "folder_at_depth svc r (Suc k) g" by (auto intro: folder_at_depth.below)
    moreover from kgf have "Suc k \<le> Suc n" by simp
    ultimately show ?thesis unfolding has_report_within_def using kgf by blast
  qed
qed

text \<open>The loop over the deque decides \<open>has_report_within\<close> for its entries.\<close>

lemma su_probe_iff:
  "su_probe svc md q = (\<exists>(f, d) \<in> set q. d \<le> md \<and> has_report_within svc f (md - d))"
proof (induction svc md q rule: su_probe.induct)
  case (1 svc md)
  show ?case by simp
next
  case (2 svc md fid d dq)
  show ?case
  proof (cases "d > md")
    case True
    with 2 show ?thesis by auto
  next
    case False
    then have le: "d \<le> md" by simp
    show ?thesis
    proof (cases "list_ex (\<lambda>ch. \<not> is_folder ch \<and> su_is_report_file (file_name ch)) (svc fid)")
      case True
      then have "has_report_within svc fid (md - d)"
        by (cases "md - d") (simp_all add: has_report_within_0 has_report_within_Suc)
      with le True show ?thesis by (simp add: list_children_def)
    next
      case nodirect: False
      have head: "has_report_within svc fid (md - d) =
          (\<exists>ch \<in> set (svc fid). is_folder ch \<and> d + 1 \<le> md \<and> has_report_within svc (file_id ch) (md - (d + 1)))"
      proof (cases "md - d")
        case 0
        with le have "d = md" by simp
        with 0 nodirect show ?thesis by (simp add: has_report_within_0)
      next
        case (Suc j)
        then have "d + 1 \<le> md" "md - (d + 1) = j" by simp_all
        with Suc nodirect show ?thesis by (auto simp: has_report_within_Suc)
      qed
      from False nodirect 2(2)
      have "su_probe svc md ((fid, d) # dq) =
          (\<exists>(f, d) \<in> set (dq @ map (\<lambda>ch. (file_id ch, d + 1)) (filter is_folder (svc fid))).
              d \<le> md \<and> has_report_within svc f (md - d))"
        by (simp add: list_children_def)
      also have "\<dots> = (\<exists>(f, d) \<in> set ((fid, d) # dq). d \<le> md \<and> has_report_within svc f (md - d))"
        using le head by auto
      finally show ?thesis .
    qed
  qed
qed

lemma su_folder_has_any_report_iff:
  "su_folder_has_any_report svc fid md = has_report_within svc fid md"
  by (simp add: su_folder_has_any_report_def su_probe_iff)

lemma su_first_with_report_None:
  "(su_first_with_report svc cs = None) = (\<forall>c \<in> set cs. \<not> has_report_within svc (file_id c) 6)"
  by (induction cs) (auto simp: su_folder_has_any_report_iff)

lemma su_first_with_report_nth:
  "i < length cs \<Longrightarrow> has_report_within svc (file_id (cs ! i)) 6
    \<Longrightarrow> \<forall>j < i. \<not> has_report_within svc (file_id (cs ! j)) 6
    \<Longrightarrow> su_first_with_report svc cs = Some (file_id (cs ! i))"
proof (induction cs arbitrary: i)
  case Nil
  then show ?case by simp
next
  case (Cons c cs)
  show ?case
  proof (cases i)
    case 0
    with Cons.prems show ?thesis by (simp add: su_folder_has_any_report_iff)
  next
    case (Suc k)
    with Cons.prems have "\<not> has_report_within svc (file_id c) 6" by auto
    moreover from Suc Cons.prems have "su_first_with_report svc cs = Some (file_id (cs ! k))"
      by (intro Cons.IH) auto
    ultimately show ?thesis using Suc by (simp add: su_folder_has_any_report_iff)
  qed
qed

text \<open>
  Claim C1. \<open>choose_class_folder_with_content\<close> takes as candidates all child folders of
  the parent whose normalised name is that of the class, in the order of the listing. It
  returns the first candidate under which a report file is listed in the candidate itself
  or in a folder reached through at most 6 folders below it; when no candidate has one it
  returns the first candidate; it returns \<open>None\<close> exactly when there is no candidate.
\<close>

theorem choose_class_folder_first_contentful:
  "let cands = filter (\<lambda>f. is_folder f \<and> su_keyize (Some (file_name f)) = su_keyize (Some class_name))
                 (list_children svc parent_id);
       chosen = su_choose_class_folder_with_content svc parent_id class_name
   in ((chosen = None) = (cands = []))
    \<and> (\<forall>i < length cands.
          has_report_within svc (file_id (cands ! i)) 6
          \<and> (\<forall>j < i. \<not> has_report_within svc (file_id (cands ! j)) 6)
          \<longrightarrow> chosen = Some (file_id (cands ! i)))
    \<and> (cands \<noteq> [] \<and> (\<forall>c \<in> set cands. \<not> has_report_within svc (file_id c) 6)
          \<longrightarrow> chosen = Some (file_id (cands ! 0)))"
proof -
  define cands where "cands = su_list_named_child_folders svc parent_id class_name"
  define chosen where "chosen = su_choose_class_folder_with_content svc parent_id class_name"
  have none: "(chosen = None) = (cands = [])"
    unfolding chosen_def cands_def su_choose_class_folder_with_content_def
    by (simp split: list.splits option.splits)
  have first: "chosen = Some (file_id (cands ! i))"
    if "i < length cands" "has_report_within svc (file_id (cands ! i)) 6"
       "\<forall>j < i. \<not> has_report_within svc (file_id (cands ! j)) 6" for i
  proof -
    from that have "su_first_with_report svc cands = Some (file_id (cands ! i))"
      by (rule su_first_with_report_nth)
    moreover from that obtain c cs where "cands = c # cs" by (cases cands) auto
    ultimately show ?thesis
      unfolding chosen_def su_choose_class_folder_with_content_def cands_def [symmetric]
      by simp
  qed
  have fallback: "chosen = Some (file_id (cands ! 0))"
    if "cands \<noteq> []" "\<forall>c \<in> set cands. \<not> has_report_within svc (file_id c) 6"
  proof -
    from that have "su_first_with_report svc cands = None"
      by (simp add: su_first_with_report_None)
    moreover from that obtain c cs where "cands = c # cs" by (cases cands) auto
    ultimately show ?thesis
      unfolding chosen_def su_choose_class_folder_with_content_def cands_def [symmetric]
      by simp
  qed
  from none first fallback show ?thesis
    unfolding Let_def cands_def [symmetric] chosen_def [symmetric]
      su_list_named_child_folders_def [symmetric]
    by (simp add: cands_def chosen_def)
qed

theorem choose_class_folder_first_contentful_witness:
  "has_report_within example_drive ''c2'' 6
   \<and> \<not> has_report_within example_drive ''c1'' 6
   \<and> su_choose_class_folder_with_content example_drive ''b'' ''Class A'' = Some ''c2''"
proof -
  let ?c1 = "\<lparr>file_id = ''c1'', file_name = ''Class A'', mimeType = FOLDER_MIME\<rparr>"
  let ?c2 = "\<lparr>file_id = ''c2'', file_name = ''class_a'', mimeType = FOLDER_MIME\<rparr>"
  have cands: "filter (\<lambda>f. is_folder f \<and> su_keyize (Some (file_name f)) = su_keyize (Some ''Class A''))
                 (list_children example_drive ''b'') = [?c1, ?c2]"
    by code_simp
  have "su_folder_has_any_report example_drive ''c2'' 6" by code_simp
  then have yes: "has_report_within example_drive ''c2'' 6"
    by (simp add: su_folder_has_any_report_iff)
  have "\<not> su_folder_has_any_report example_drive ''c1'' 6" by code_simp
  then have no: "\<not> has_report_within example_drive ''c1'' 6"
    by (simp add: su_folder_has_any_report_iff)
  note t = choose_class_folder_first_contentful [of "''Class A''" example_drive "''b''",
      unfolded Let_def cands, THEN conjunct2, THEN conjunct1, rule_format, of 1]
  have "\<forall>j < (1::nat). \<not> has_report_within example_drive (file_id ([?c1, ?c2] ! j)) 6"
    using no by simp
  with yes have "su_choose_class_folder_with_content example_drive ''b'' ''Class A''
       = Some (file_id ([?c1, ?c2] ! 1))"
    by (intro t) simp_all
  with yes no show ?thesis by simp
qed

section \<open>Facts about the upload routing\<close>

lemma digit_not_int_space: "is_digit c \<Longrightarrow> \<not> is_int_space c"
  by (auto simp: is_digit_def is_int_space_def)

lemma digit_not_sign: "is_digit c \<Longrightarrow> c \<noteq> CHR ''-'' \<and> c \<noteq> CHR ''+'' \<and> c \<noteq> CHR ''_''"
  by (auto simp: is_digit_def)

lemma int_strip_digits: "s \<noteq> [] \<Longrightarrow> list_all is_digit s \<Longrightarrow> int_strip s = s"
proof -
  assume ne: "s \<noteq> []" and dig: "list_all is_digit s"
  then obtain c cs where s: "s = c # cs" by (cases s) auto
  with dig have "\<not> is_int_space c" by (simp add: digit_not_int_space)
  with s have a: "dropWhile is_int_space s = s" by simp
  from ne dig have "is_digit (last s)" by (simp add: list_all_iff)
  then have "\<not> is_int_space (hd (rev s))" using ne by (simp add: hd_rev digit_not_int_space)
  then have "dropWhile is_int_space (rev s) = rev s" using ne by (cases "rev s") auto
  with a show ?thesis by (simp add: int_strip_def)
qed

lemma numeral_body_digits: "s \<noteq> [] \<Longrightarrow> list_all is_digit s \<Longrightarrow> numeral_body s"
  by (induction s rule: numeral_body.induct) (auto simp: digit_not_sign)

lemma filter_digits: "list_all is_digit s \<Longrightarrow> filter is_digit s = s"
  by (induction s) auto

lemma py_int_digits:
  "s \<noteq> [] \<Longrightarrow> list_all is_digit s \<Longrightarrow> length s \<le> int_max_str_digits
    \<Longrightarrow> py_int s = Some (int (digits_value 0 s))"
proof -
  assume ne: "s \<noteq> []" and dig: "list_all is_digit s" and len: "length s \<le> int_max_str_digits"
  then obtain c cs where s: "s = c # cs" by (cases s) auto
  with dig have "c \<noteq> CHR ''-''" "c \<noteq> CHR ''+''" using digit_not_sign by auto
  moreover have "numeral_value (c # cs) = Some (digits_value 0 (c # cs))"
    using ne dig len s numeral_body_digits [of s] filter_digits [of s]
    by (simp add: numeral_value_def)
  ultimately show ?thesis using int_strip_digits [OF ne dig] s by (simp add: py_int_def)
qed

lemma route_of_digits:
  "s \<noteq> [] \<Longrightarrow> list_all is_digit s \<Longrightarrow> length s \<le> int_max_str_digits \<Longrightarrow>
     route_index_to_folder s =
       Some (if digits_value 0 s \<le> 2 then REMOTE3_NAME
             else if digits_value 0 s \<le> 5 then REMOTE4_NAME else MICROPHONE_NAME)"
  by (auto simp: route_index_to_folder_def py_int_digits)

lemma upload_index_search_digits:
  "upload_index_search name = Some idx \<Longrightarrow> length idx = 3 \<and> list_all is_digit idx"
proof (induction name)
  case Nil
  then show ?case by simp
next
  case (Cons c cs)
  show ?case
  proof (cases "re_match upload_index_pattern (c # cs)")
    case True
    then obtain c1 c2 c3 d1 d2 d3 rest where
      "cs = c1 # c2 # c3 # d1 # d2 # d3 # rest" "is_digit d1" "is_digit d2" "is_digit d3"
      apply (simp add: upload_index_pattern_def)
      apply (cases cs; simp)
      subgoal for c1 l1
        apply (cases l1; simp)
        subgoal for c2 l2
          apply (cases l2; simp)
          subgoal for c3 l3
            apply (cases l3; simp)
            subgoal for c4 l4
              apply (cases l4; simp)
              subgoal for c5 l5
                by (cases l5; simp)
              done
            done
          done
        done
      done
    with True Cons.prems show ?thesis by auto
  next
    case False
    with Cons show ?thesis by simp
  qed
qed

lemma digits_value_three:
  "is_digit a \<Longrightarrow> is_digit b \<Longrightarrow> is_digit c \<Longrightarrow>
     digits_value 0 [a, b, c] =
       100 * ((of_char a :: nat) - 48) + 10 * ((of_char b :: nat) - 48) + ((of_char c :: nat) - 48)"
  by simp

text \<open>Which \<open>return\<close> is reached decides the result.\<close>

lemma route_index_to_folder_exit:
  "route_index_to_folder s =
     (case route_index_exit s of
        ExceptReturn \<Rightarrow> None | FolderReturn name \<Rightarrow> Some name | FinalReturn \<Rightarrow> None)"
  by (simp add: route_index_to_folder_def route_index_exit_def split: option.splits)

lemma route_except_iff: "(route_index_exit s = ExceptReturn) = (py_int s = None)"
  by (simp add: route_index_exit_def split: option.splits)

lemma route_final_iff:
  "(route_index_exit s = FinalReturn) = (\<exists>n. py_int s = Some n \<and> n < 0)"
  by (auto simp: route_index_exit_def split: option.splits)

text \<open>A negative value comes from a minus sign before a numeral that is not zero.\<close>

lemma py_int_negative:
  "(\<exists>n. py_int s = Some n \<and> n < 0) =
     (\<exists>body v. int_strip s = CHR ''-'' # body \<and> numeral_value body = Some v \<and> 0 < v)"
proof
  assume "\<exists>n. py_int s = Some n \<and> n < 0"
  then obtain n where n: "py_int s = Some n" "n < 0" by blast
  then obtain c cs where s: "int_strip s = c # cs"
    by (cases "int_strip s") (auto simp: py_int_def)
  show "\<exists>body v. int_strip s = CHR ''-'' # body \<and> numeral_value body = Some v \<and> 0 < v"
  proof (cases "c = CHR ''-''")
    case True
    with n s obtain v where "numeral_value cs = Some v" "n = - int v"
      by (auto simp: py_int_def)
    with n True s show ?thesis by auto
  next
    case False
    with n s have "0 \<le> n" by (auto simp: py_int_def split: if_splits)
    with n show ?thesis by simp
  qed
next
  assume "\<exists>body v. int_strip s = CHR ''-'' # body \<and> numeral_value body = Some v \<and> 0 < v"
  then obtain body v where "int_strip s = CHR ''-'' # body" "numeral_value body = Some v" "0 < v"
    by blast
  then have "py_int s = Some (- int v) \<and> - int v < 0" by (simp add: py_int_def)
  then show "\<exists>n. py_int s = Some n \<and> n < 0" by blast
qed

text \<open>What \<open>int\<close> refuses: a numeral of more than 4300 digits, and a separator before the
  digits.\<close>

lemma py_int_too_long:
  "list_all is_digit s \<Longrightarrow> int_max_str_digits < length s \<Longrightarrow> py_int s = None"
proof -
  assume dig: "list_all is_digit s" and len: "int_max_str_digits < length s"
  then have ne: "s \<noteq> []" by auto
  then obtain c cs where s: "s = c # cs" by (cases s) auto
  with dig have "c \<noteq> CHR ''-''" "c \<noteq> CHR ''+''" using digit_not_sign by auto
  moreover have "numeral_value (c # cs) = None"
    using dig len s filter_digits [of s] by (simp add: numeral_value_def)
  ultimately show ?thesis using int_strip_digits [OF ne dig] s by (simp add: py_int_def)
qed

lemma py_int_separator: "py_int ([CHR 0x1C] @ ''5'') = None"
  by code_simp

text \<open>
  Claim C10, amended. For every index of three decimal digits \<open>route_index_to_folder\<close>
  returns \<open>Remote3\<close> for the values 0 to 2, \<open>Remote4\<close> for 3 to 5 and \<open>Microphone\<close> above 5,
  never \<open>None\<close>, and whatever index the file name pattern of the upload script extracts
  has three digits and is routed to one of the three folders. The \<open>return None\<close> of the
  \<open>except\<close> clause is reached exactly by the strings \<open>int\<close> refuses; the last \<open>return None\<close>
  is reached exactly by the strings that are, between the characters \<open>int\<close> ignores, a
  minus sign and a numeral that is not zero.
\<close>

theorem three_digit_index_is_routed:
  "(\<forall>a b c. is_digit a \<and> is_digit b \<and> is_digit c \<longrightarrow>
      route_index_to_folder [a, b, c] =
        Some (let n = 100 * ((of_char a :: nat) - 48) + 10 * ((of_char b :: nat) - 48)
                        + ((of_char c :: nat) - 48)
              in if n \<le> 2 then REMOTE3_NAME else if n \<le> 5 then REMOTE4_NAME
                 else MICROPHONE_NAME))
   \<and> (\<forall>name idx. upload_index_search name = Some idx \<longrightarrow>
          length idx = 3 \<and> list_all is_digit idx
          \<and> route_index_to_folder idx
              \<in> {Some REMOTE3_NAME, Some REMOTE4_NAME, Some MICROPHONE_NAME})
   \<and> (\<forall>s. route_index_to_folder s =
          (case route_index_exit s of
             ExceptReturn \<Rightarrow> None | FolderReturn name \<Rightarrow> Some name | FinalReturn \<Rightarrow> None))
   \<and> (\<forall>s. (route_index_exit s = ExceptReturn) = (py_int s = None))
   \<and> (\<forall>s. (route_index_exit s = FinalReturn)
            = (\<exists>body v. int_strip s = CHR ''-'' # body \<and> numeral_value body = Some v \<and> 0 < v))"
proof (intro conjI allI impI)
  fix a b c
  assume d: "is_digit a \<and> is_digit b \<and> is_digit c"
  then have "list_all is_digit [a, b, c]" by simp
  then have "route_index_to_folder [a, b, c] =
       Some (if digits_value 0 [a, b, c] \<le> 2 then REMOTE3_NAME
             else if digits_value 0 [a, b, c] \<le> 5 then REMOTE4_NAME else MICROPHONE_NAME)"
    by (intro route_of_digits) (simp_all add: int_max_str_digits_def)
  with d show "route_index_to_folder [a, b, c] =
        Some (let n = 100 * ((of_char a :: nat) - 48) + 10 * ((of_char b :: nat) - 48)
                        + ((of_char c :: nat) - 48)
              in if n \<le> 2 then REMOTE3_NAME else if n \<le> 5 then REMOTE4_NAME
                 else MICROPHONE_NAME)"
    by (simp only: digits_value_three Let_def)
next
  fix name idx
  assume "upload_index_search name = Some idx"
  then show "length idx = 3" using upload_index_search_digits by blast
next
  fix name idx
  assume "upload_index_search name = Some idx"
  then show "list_all is_digit idx" using upload_index_search_digits by blast
next
  fix name idx
  assume "upload_index_search name = Some idx"
  then have "length idx = 3 \<and> list_all is_digit idx" by (rule upload_index_search_digits)
  then have "idx \<noteq> []" "list_all is_digit idx" "length idx \<le> int_max_str_digits"
    by (auto simp: int_max_str_digits_def)
  then show "route_index_to_folder idx
              \<in> {Some REMOTE3_NAME, Some REMOTE4_NAME, Some MICROPHONE_NAME}"
    by (simp add: route_of_digits)
next
  fix s
  show "route_index_to_folder s =
          (case route_index_exit s of
             ExceptReturn \<Rightarrow> None | FolderReturn name \<Rightarrow> Some name | FinalReturn \<Rightarrow> None)"
    by (rule route_index_to_folder_exit)
next
  fix s
  show "(route_index_exit s = ExceptReturn) = (py_int s = None)" by (rule route_except_iff)
next
  fix s
  show "(route_index_exit s = FinalReturn)
            = (\<exists>body v. int_strip s = CHR ''-'' # body \<and> numeral_value body = Some v \<and> 0 < v)"
    by (simp only: route_final_iff py_int_negative)
qed

theorem three_digit_index_is_routed_witness:
  "upload_index_search ''KAP113_slm-004_run2.txt'' = Some ''004''
   \<and> route_index_to_folder ''004'' = Some ''Remote4''
   \<and> route_index_to_folder ''002'' = Some ''Remote3''
   \<and> route_index_to_folder ''018'' = Some ''Microphone''"
proof -
  have s: "upload_index_search ''KAP113_slm-004_run2.txt'' = Some ''004''" by code_simp
  have d: "is_digit (CHR ''0'')" "is_digit (CHR ''4'')" "is_digit (CHR ''2'')"
    "is_digit (CHR ''1'')" "is_digit (CHR ''8'')"
    by (simp_all add: is_digit_def)
  note r = three_digit_index_is_routed [THEN conjunct1, rule_format]
  have "route_index_to_folder ''004'' = Some ''Remote4''"
    using r [of "CHR ''0''" "CHR ''0''" "CHR ''4''"] d by (simp add: REMOTE4_NAME_def)
  moreover have "route_index_to_folder ''002'' = Some ''Remote3''"
    using r [of "CHR ''0''" "CHR ''0''" "CHR ''2''"] d by (simp add: REMOTE3_NAME_def)
  moreover have "route_index_to_folder ''018'' = Some ''Microphone''"
    using r [of "CHR ''0''" "CHR ''1''" "CHR ''8''"] d by (simp add: MICROPHONE_NAME_def)
  ultimately show ?thesis using s by simp
qed

text \<open>
  Claim C10 as it is worded has the last \<open>return None\<close> reached only by inputs that are not
  decimal numerals. The input \<open>-1\<close> is a numeral that \<open>int\<close> reads, as minus one, and it
  reaches the last \<open>return None\<close>.
\<close>

theorem final_return_reached_by_numeral:
  "py_int ''-1'' = Some (- 1)
   \<and> route_index_exit ''-1'' = FinalReturn
   \<and> route_index_to_folder ''-1'' = None"
  by code_simp

section \<open>Facts about reading the measurement\<close>

text \<open>The two patterns ask for exactly the shapes said character by character.\<close>

lemma re_match_nth:
  "re_match pat s = (length pat \<le> length s \<and> (\<forall>i < length pat. atom_ok (pat ! i) (s ! i)))"
proof (induction pat s rule: re_match.induct)
  case (1 s)
  show ?case by simp
next
  case (2 a as)
  show ?case by simp
next
  case (3 a as c cs)
  show ?case unfolding re_match.simps 3
    by (auto simp: nth_Cons split: nat.splits)
qed

lemma re_match_date: "re_match date_pattern tok = begins_with_date tok"
  unfolding re_match_nth begins_with_date_def date_pattern_def
  by (simp add: eval_nat_numeral All_less_Suc conj_ac) 

lemma re_match_time: "re_match time_pattern tok = begins_with_time tok"
  unfolding re_match_nth begins_with_time_def time_pattern_def
  by (simp add: eval_nat_numeral All_less_Suc conj_ac)

lemma extract_laeq_lines_Cons:
  "extract_laeq_lines (line # rest) =
     (if line_qualifies line then Some (py_split line ! 4) else extract_laeq_lines rest)"
  by (simp add: Let_def re_match_date re_match_time line_qualifies_def)

lemma extract_laeq_lines_None:
  "(extract_laeq_lines ls = None) = (\<forall>l \<in> set ls. \<not> line_qualifies l)"
  by (induction ls) (auto simp: extract_laeq_lines_Cons simp del: extract_laeq_lines.simps(2))

lemma extract_laeq_lines_first:
  "i < length ls \<Longrightarrow> line_qualifies (ls ! i) \<Longrightarrow> \<forall>j < i. \<not> line_qualifies (ls ! j)
    \<Longrightarrow> extract_laeq_lines ls = Some (py_split (ls ! i) ! 4)"
proof (induction ls arbitrary: i)
  case Nil
  then show ?case by simp
next
  case (Cons l ls)
  show ?case
  proof (cases i)
    case 0
    with Cons.prems show ?thesis by (simp add: extract_laeq_lines_Cons del: extract_laeq_lines.simps(2))
  next
    case (Suc k)
    with Cons.prems have "\<not> line_qualifies l" by auto
    moreover from Suc Cons.prems have "extract_laeq_lines ls = Some (py_split (ls ! k) ! 4)"
      by (intro Cons.IH) auto
    ultimately show ?thesis using Suc
      by (simp add: extract_laeq_lines_Cons del: extract_laeq_lines.simps(2))
  qed
qed

lemma extract_laeq_lines_take:
  "i < length ls \<Longrightarrow> line_qualifies (ls ! i)
    \<Longrightarrow> extract_laeq_lines (take (Suc i) ls) = extract_laeq_lines ls"
proof (induction ls arbitrary: i)
  case Nil
  then show ?case by simp
next
  case (Cons l ls)
  then show ?case
    by (cases i) (auto simp: extract_laeq_lines_Cons simp del: extract_laeq_lines.simps(2))
qed

lemma extract_laeq_lines_prefix:
  assumes "i < length ls" "line_qualifies (ls ! i)" "take (Suc i) ls' = take (Suc i) ls"
  shows "extract_laeq_lines ls' = extract_laeq_lines ls"
proof -
  from assms(1) have "length (take (Suc i) ls) = Suc i" by simp
  with assms(3) have "length (take (Suc i) ls') = Suc i" by simp
  then have len: "i < length ls'" by simp
  have "ls' ! i = take (Suc i) ls' ! i" by simp
  also have "\<dots> = ls ! i" using assms(3) by simp
  finally have q: "line_qualifies (ls' ! i)" using assms(2) by simp
  have "extract_laeq_lines ls' = extract_laeq_lines (take (Suc i) ls')"
    using len q by (rule extract_laeq_lines_take [symmetric])
  also have "\<dots> = extract_laeq_lines (take (Suc i) ls)" using assms(3) by simp
  also have "\<dots> = extract_laeq_lines ls"
    using assms(1,2) by (rule extract_laeq_lines_take)
  finally show ?thesis .
qed

text \<open>
  Claim C2, amended. \<open>extract_laeq\<close> returns token 4 of the first line that has at least
  five whitespace-separated tokens with tokens 0 to 3 beginning with \<open>YYYY-MM-DD\<close>,
  \<open>HH:MM:SS\<close>, \<open>YYYY-MM-DD\<close> and \<open>HH:MM:SS\<close> (a token may go on after the pattern), and
  \<open>None\<close> when no line qualifies; the lines after that line do not change the result,
  and the token is returned as it stands.
\<close>

theorem extract_laeq_first_line_beginning_with_stamps:
  "let ls = py_splitlines text;
       good = (\<lambda>line. 5 \<le> length (py_split line)
                 \<and> begins_with_date (py_split line ! 0) \<and> begins_with_time (py_split line ! 1)
                 \<and> begins_with_date (py_split line ! 2) \<and> begins_with_time (py_split line ! 3))
   in ((extract_laeq text = None) = (\<forall>l \<in> set ls. \<not> good l))
    \<and> (\<forall>i < length ls.
          good (ls ! i) \<and> (\<forall>j < i. \<not> good (ls ! j))
          \<longrightarrow> extract_laeq text = Some (py_split (ls ! i) ! 4))
    \<and> (\<forall>text' i.
          i < length ls \<and> good (ls ! i)
          \<and> take (Suc i) (py_splitlines text') = take (Suc i) ls
          \<longrightarrow> extract_laeq text' = extract_laeq text)"
  unfolding Let_def line_qualifies_def [symmetric] extract_laeq_def
proof (intro conjI allI impI)
  show "(extract_laeq_lines (py_splitlines text) = None)
      = (\<forall>l \<in> set (py_splitlines text). \<not> line_qualifies l)"
    by (rule extract_laeq_lines_None)
next
  fix i
  assume "i < length (py_splitlines text)"
    and "line_qualifies (py_splitlines text ! i)
         \<and> (\<forall>j < i. \<not> line_qualifies (py_splitlines text ! j))"
  then show "extract_laeq_lines (py_splitlines text)
      = Some (py_split (py_splitlines text ! i) ! 4)"
    by (simp add: extract_laeq_lines_first)
next
  fix text' i
  assume "i < length (py_splitlines text) \<and> line_qualifies (py_splitlines text ! i)
          \<and> take (Suc i) (py_splitlines text') = take (Suc i) (py_splitlines text)"
  then show "extract_laeq_lines (py_splitlines text') = extract_laeq_lines (py_splitlines text)"
    using extract_laeq_lines_prefix by blast
qed

lemma list_all_take_nth:
  "list_all P (take n xs) \<Longrightarrow> n \<le> length xs \<Longrightarrow> \<forall>j < n. P (xs ! j)"
  by (simp add: list_all_length)

theorem extract_laeq_first_line_beginning_with_stamps_witness:
  "\<not> line_qualifies ''2024-01-0x 00:00:00 2024-01-01 01:00:00 11.1''
   \<and> \<not> line_qualifies ''2024-01-01 00:00 2024-01-01 01:00:00 22.2''
   \<and> \<not> line_qualifies ''2024-01-01 00:00:00 01/01/2024 01:00:00 33.3''
   \<and> \<not> line_qualifies ''2024-01-01 00:00:00 2024-01-01 01-00-00 44.4''
   \<and> \<not> line_qualifies ''2024-01-01 00:00:00 2024-01-01 01:00:00''
   \<and> line_qualifies ''2024-01-01 00:00:00 2024-01-01 01:00:00 55.3 extra''
   \<and> extract_laeq example_report = Some ''55.3''"
proof -
  let ?l0 = "''Start End LAeq''"
  let ?l1 = "''2024-01-0x 00:00:00 2024-01-01 01:00:00 11.1''"
  let ?l2 = "''2024-01-01 00:00 2024-01-01 01:00:00 22.2''"
  let ?l3 = "''2024-01-01 00:00:00 01/01/2024 01:00:00 33.3''"
  let ?l4 = "''2024-01-01 00:00:00 2024-01-01 01-00-00 44.4''"
  let ?l5 = "''2024-01-01 00:00:00 2024-01-01 01:00:00''"
  let ?l6 = "''2024-01-01 00:00:00 2024-01-01 01:00:00 55.3 extra''"
  let ?l7 = "''2024-01-02 00:00:00 2024-01-02 01:00:00 99.9''"
  have ls: "py_splitlines example_report = [?l0, ?l1, ?l2, ?l3, ?l4, ?l5, ?l6, ?l7]"
    by code_simp
  have n0: "\<not> line_qualifies ?l0" by code_simp
  have n1: "\<not> line_qualifies ?l1" by code_simp
  have n2: "\<not> line_qualifies ?l2" by code_simp
  have n3: "\<not> line_qualifies ?l3" by code_simp
  have n4: "\<not> line_qualifies ?l4" by code_simp
  have n5: "\<not> line_qualifies ?l5" by code_simp
  have yes: "line_qualifies ?l6" by code_simp
  have tok: "py_split ?l6 ! 4 = ''55.3''" by code_simp
  have before: "list_all (\<lambda>l. \<not> line_qualifies l) (take 6 [?l0, ?l1, ?l2, ?l3, ?l4, ?l5, ?l6, ?l7])"
    using n0 n1 n2 n3 n4 n5 by (simp add: eval_nat_numeral)
  then have no: "\<forall>j < 6. \<not> line_qualifies ([?l0, ?l1, ?l2, ?l3, ?l4, ?l5, ?l6, ?l7] ! j)"
    by (intro list_all_take_nth) simp_all
  have six: "[?l0, ?l1, ?l2, ?l3, ?l4, ?l5, ?l6, ?l7] ! 6 = ?l6" by (simp add: eval_nat_numeral)
  note t = extract_laeq_first_line_beginning_with_stamps [of example_report,
      unfolded Let_def line_qualifies_def [symmetric] ls, THEN conjunct2, THEN conjunct1,
      rule_format, of 6]
  have "extract_laeq example_report
      = Some (py_split ([?l0, ?l1, ?l2, ?l3, ?l4, ?l5, ?l6, ?l7] ! 6) ! 4)"
    using yes no by (intro t) (simp_all only: six, simp)
  then have "extract_laeq example_report = Some ''55.3''" by (simp only: six tok)
  with n1 n2 n3 n4 n5 yes show ?thesis by blast
qed

text \<open>
  Claim C2 as it is worded asks tokens 0 to 3 to match \<open>YYYY-MM-DD\<close> and \<open>HH:MM:SS\<close>. The
  only line of this text has the first token \<open>2024-01-01T\<close>, which is not of the form
  \<open>YYYY-MM-DD\<close>, so no line qualifies in the claim's words; the function returns token 4
  of the line.
\<close>

theorem extract_laeq_accepts_longer_token:
  "py_splitlines example_long_token = [example_long_token]
   \<and> py_split example_long_token
       = [''2024-01-01T'', ''00:00:00'', ''2024-01-01'', ''01:00:00'', ''55.3'']
   \<and> \<not> is_date_token ''2024-01-01T''
   \<and> extract_laeq example_long_token = Some ''55.3''"
  by code_simp

text \<open>No qualifying line; a token that is not a number.\<close>

lemma extract_laeq_absent: "extract_laeq ''no data line here'' = None"
  by code_simp

lemma extract_laeq_not_validated:
  "extract_laeq ''2024-01-01 00:00:00 2024-01-01 01:00:00 n/a'' = Some ''n/a''"
  by code_simp

section \<open>Facts about the search by index\<close>

lemma files_within_0: "files_within svc r 0 = {f \<in> set (svc r). \<not> is_folder f}"
  by (auto simp: files_within_def folder_at_depth_0)

lemma files_within_Suc:
  "files_within svc r (Suc n) =
     {f \<in> set (svc r). \<not> is_folder f}
     \<union> (\<Union>ch \<in> {ch \<in> set (svc r). is_folder ch}. files_within svc (file_id ch) n)"
proof (intro set_eqI iffI)
  fix f
  assume "f \<in> files_within svc r (Suc n)"
  then obtain k g where kg: "k \<le> Suc n" "folder_at_depth svc r k g" "f \<in> set (svc g)"
      "\<not> is_folder f"
    unfolding files_within_def by blast
  show "f \<in> {f \<in> set (svc r). \<not> is_folder f}
     \<union> (\<Union>ch \<in> {ch \<in> set (svc r). is_folder ch}. files_within svc (file_id ch) n)"
  proof (cases k)
    case 0
    with kg show ?thesis by (simp add: folder_at_depth_0)
  next
    case (Suc j)
    with kg obtain ch where "ch \<in> set (svc r)" "is_folder ch"
        "folder_at_depth svc (file_id ch) j g"
      by (auto simp: folder_at_depth_Suc)
    moreover from Suc kg have "j \<le> n" by simp
    ultimately have "\<exists>ch \<in> {ch \<in> set (svc r). is_folder ch}. f \<in> files_within svc (file_id ch) n"
      unfolding files_within_def using kg by blast
    then show ?thesis by blast
  qed
next
  fix f
  assume "f \<in> {f \<in> set (svc r). \<not> is_folder f}
     \<union> (\<Union>ch \<in> {ch \<in> set (svc r). is_folder ch}. files_within svc (file_id ch) n)"
  then show "f \<in> files_within svc r (Suc n)"
  proof
    assume "f \<in> {f \<in> set (svc r). \<not> is_folder f}"
    then show ?thesis
      unfolding files_within_def using folder_at_depth.here [of svc r] by blast
  next
    assume "f \<in> (\<Union>ch \<in> {ch \<in> set (svc r). is_folder ch}. files_within svc (file_id ch) n)"
    then obtain ch k g where ch: "ch \<in> set (svc r)" "is_folder ch"
      and kg: "k \<le> n" "folder_at_depth svc (file_id ch) k g" "f \<in> set (svc g)" "\<not> is_folder f"
      unfolding files_within_def by blast
    from ch kg have "folder_at_depth svc r (Suc k) g" by (auto intro: folder_at_depth.below)
    moreover from kg have "Suc k \<le> Suc n" by simp
    ultimately show ?thesis unfolding files_within_def using kg by blast
  qed
qed

lemma nr_files_loop_set:
  "set (nr_files_loop svc md q) = (\<Union>(f, d) \<in> set q. files_within svc f (md - d))"
proof (induction svc md q rule: nr_files_loop.induct)
  case (1 svc md)
  show ?case by simp
next
  case (2 svc md fid d dq)
  have head: "files_within svc fid (md - d) =
      {f \<in> set (svc fid). \<not> is_folder f}
      \<union> (\<Union>(f, d') \<in> set (if d < md then map (\<lambda>ch. (file_id ch, d + 1)) (filter is_folder (svc fid)) else []).
            files_within svc f (md - d'))"
  proof (cases "d < md")
    case True
    then have "md - d = Suc (md - (d + 1))" by simp
    then have "files_within svc fid (md - d) = files_within svc fid (Suc (md - (d + 1)))"
      by simp
    also have "\<dots> = {f \<in> set (svc fid). \<not> is_folder f}
        \<union> (\<Union>ch \<in> {ch \<in> set (svc fid). is_folder ch}. files_within svc (file_id ch) (md - (d + 1)))"
      by (rule files_within_Suc)
    finally show ?thesis using True by auto
  next
    case False
    then have "md - d = 0" by simp
    with False show ?thesis by (simp add: files_within_0)
  qed
  have "set (nr_files_loop svc md ((fid, d) # dq)) =
      {f \<in> set (svc fid). \<not> is_folder f}
      \<union> (\<Union>(f, d') \<in> set (dq @ (if d < md then map (\<lambda>ch. (file_id ch, d + 1)) (filter is_folder (svc fid)) else [])).
            files_within svc f (md - d'))"
    using 2 by (auto simp: list_children_def)
  also have "\<dots> = (\<Union>(f, d') \<in> set ((fid, d) # dq). files_within svc f (md - d'))"
    unfolding set_append UN_Un using head by auto
  finally show ?case .
qed

lemma nr_list_files_recursive_set:
  "set (nr_list_files_recursive svc r md) = files_within svc r md"
  unfolding nr_list_files_recursive_def nr_files_loop_set by simp

lemma nat_digits_fuel: "n < f1 \<Longrightarrow> n < f2 \<Longrightarrow> nat_digits f1 n = nat_digits f2 n"
proof (induction f1 arbitrary: f2 n)
  case 0
  then show ?case by simp
next
  case (Suc f1)
  then obtain g where g: "f2 = Suc g" by (cases f2) auto
  show ?case
  proof (cases "n < 10")
    case True
    with g show ?thesis by simp
  next
    case False
    then have "n div 10 < n" by simp
    with Suc.prems g have "n div 10 < f1" "n div 10 < g" by simp_all
    then have "nat_digits f1 (n div 10) = nat_digits g (n div 10)" by (rule Suc.IH)
    with False g show ?thesis by simp
  qed
qed

lemma str_nat_unfold:
  "str_nat n = (if n < 10 then [char_of (48 + n)]
                else str_nat (n div 10) @ [char_of (48 + n mod 10)])"
proof (cases "n < 10")
  case True
  then show ?thesis by (simp add: str_nat_def)
next
  case False
  then have "n div 10 < n" by simp
  then have "nat_digits n (n div 10) = nat_digits (Suc (n div 10)) (n div 10)"
    by (intro nat_digits_fuel) simp_all
  with False show ?thesis by (simp add: str_nat_def)
qed

lemma char_of_48: "char_of (48 :: nat) = CHR ''0''"
  by code_simp

lemma divmod10: "z < 10 \<Longrightarrow> (10 * q + z) div 10 = (q::nat) \<and> (10 * q + z) mod 10 = z"
  by simp

lemma divmod100:
  "z < 10 \<Longrightarrow> (100 * x + 10 * y + z) div 10 = 10 * x + (y::nat)
     \<and> (100 * x + 10 * y + z) mod 10 = (z::nat)"
proof -
  assume z: "z < 10"
  have e: "100 * x + 10 * y + z = 10 * (10 * x + y) + z" by simp
  show ?thesis using divmod10 [OF z, of "10 * x + y"] by (simp only: e)
qed

lemma digit_char: "is_digit c \<Longrightarrow> char_of (48 + ((of_char c :: nat) - 48)) = c"
  by (simp add: is_digit_def)

lemma format_03d_digits:
  assumes "is_digit a" "is_digit b" "is_digit c"
  shows "format_03d (int (digits_value 0 [a, b, c])) = [a, b, c]"
proof -
  define x y z where "x = (of_char a :: nat) - 48" and "y = (of_char b :: nat) - 48"
    and "z = (of_char c :: nat) - 48"
  from assms have bounds: "x < 10" "y < 10" "z < 10"
    by (auto simp: x_def y_def z_def is_digit_def)
  from assms have chars: "char_of (48 + x) = a" "char_of (48 + y) = b" "char_of (48 + z) = c"
    by (simp_all add: x_def y_def z_def digit_char)
  from assms have n: "digits_value 0 [a, b, c] = 100 * x + 10 * y + z"
    by (simp add: x_def y_def z_def)
  have sx: "str_nat x = [a]" using bounds chars by (subst str_nat_unfold) simp
  have sy: "str_nat y = [b]" using bounds chars by (subst str_nat_unfold) simp
  have sz: "str_nat z = [c]" using bounds chars by (subst str_nat_unfold) simp
  have pad: "zero_pad 3 (str_nat (100 * x + 10 * y + z)) = [a, b, c]"
  proof (cases "x = 0")
    case x0: True
    show ?thesis
    proof (cases "y = 0")
      case True
      with x0 sz have "str_nat (100 * x + 10 * y + z) = [c]" by simp
      moreover from x0 True chars have "a = CHR ''0''" "b = CHR ''0''"
        by (auto simp: char_of_48)
      ultimately show ?thesis by (simp add: zero_pad_def eval_nat_numeral)
    next
      case False
      from bounds have d: "(10 * y + z) div 10 = y" "(10 * y + z) mod 10 = z" by simp_all
      from False have "\<not> 10 * y + z < 10" by simp
      then have "str_nat (10 * y + z) = str_nat y @ [char_of (48 + z)]"
        using bounds by (subst str_nat_unfold) (simp add: d)
      with sy chars have "str_nat (10 * y + z) = [b, c]" by simp
      moreover from x0 chars have "a = CHR ''0''" by (auto simp: char_of_48)
      ultimately show ?thesis using x0 by (simp add: zero_pad_def eval_nat_numeral)
    qed
  next
    case False
    from bounds have d1: "(100 * x + 10 * y + z) div 10 = 10 * x + y"
      "(100 * x + 10 * y + z) mod 10 = z" using divmod100 [of z x y] by blast+
    from bounds have d2: "(10 * x + y) div 10 = x" "(10 * x + y) mod 10 = y" by simp_all
    from False have big: "\<not> 100 * x + 10 * y + z < 10" "\<not> 10 * x + y < 10" by simp_all
    have "str_nat (10 * x + y) = str_nat x @ [char_of (48 + y)]"
      using big bounds by (subst str_nat_unfold) (simp add: d2)
    with sx chars have "str_nat (10 * x + y) = [a, b]" by simp
    moreover have "str_nat (100 * x + 10 * y + z) = str_nat (10 * x + y) @ [char_of (48 + z)]"
      using big bounds by (subst str_nat_unfold) (simp add: d1)
    ultimately have "str_nat (100 * x + 10 * y + z) = [a, b, c]" using chars by simp
    then show ?thesis by (simp add: zero_pad_def eval_nat_numeral)
  qed
  have f: "format_03d (int m) = zero_pad 3 (str_nat m)" for m
    by (simp add: format_03d_def)
  show ?thesis unfolding f n by (fact pad)
qed

lemma sorted_le_last:
  fixes xs :: "'b :: linorder list"
  shows "sorted xs \<Longrightarrow> x \<in> set xs \<Longrightarrow> x \<le> last xs"
  by (induction xs) auto

lemma last_sort_key_greatest:
  fixes f :: "'a \<Rightarrow> 'b :: linorder"
  assumes "xs \<noteq> []"
  shows "last (sort_key f xs) \<in> set xs \<and> (\<forall>x \<in> set xs. f x \<le> f (last (sort_key f xs)))"
proof -
  let ?ys = "sort_key f xs"
  from assms have ne: "?ys \<noteq> []" by (metis length_sort length_0_conv)
  then have "last ?ys \<in> set ?ys" by (rule last_in_set)
  then have mem: "last ?ys \<in> set xs" by simp
  have srt: "sorted (map f ?ys)" by (rule sorted_sort_key)
  have "f x \<le> f (last ?ys)" if "x \<in> set xs" for x
  proof -
    from that have "f x \<in> set (map f ?ys)" by simp
    with srt have "f x \<le> last (map f ?ys)" by (rule sorted_le_last)
    with ne show ?thesis by (simp add: last_map)
  qed
  with mem show ?thesis by blast
qed

lemma nr_is_target_iff:
  "nr_is_target_report_for_index name idx = (sheet_index_search name = Some idx)"
  by (auto simp: nr_is_target_report_for_index_def split: option.splits)

lemma nr_find_three_digits:
  assumes "is_digit a" "is_digit b" "is_digit c"
  shows "nr_find_report_file_by_index svc folder_id [a, b, c] =
     (let matches = filter (\<lambda>f. sheet_index_search (file_name f) = Some [a, b, c])
                      (nr_list_files_recursive svc folder_id 2)
      in if matches = [] then Inr None
         else Inr (Some (file_id (last (sort_key file_name matches)),
                         file_name (last (sort_key file_name matches)))))"
proof -
  from assms have "py_int [a, b, c] = Some (int (digits_value 0 [a, b, c]))"
    by (intro py_int_digits) (simp_all add: int_max_str_digits_def)
  moreover from assms have "format_03d (int (digits_value 0 [a, b, c])) = [a, b, c]"
    by (rule format_03d_digits)
  ultimately show ?thesis
    by (simp only: nr_find_report_file_by_index_def nr_is_target_iff option.case)
qed

text \<open>
  Claim C3. For a target index of three digits, \<open>find_report_file_by_index\<close> looks at the
  entries that are not folders in the given folder and in the folders reached through at
  most 2 folders below it, keeps exactly those whose name carries the target index as its
  three-digit group, returns \<open>(None, None)\<close> when there is none, and otherwise returns one
  of them whose name is greatest in the order of strings.
\<close>

theorem find_report_file_by_index_greatest:
  "is_digit a \<and> is_digit b \<and> is_digit c \<longrightarrow>
     (let matching = {f \<in> files_within svc folder_id 2.
                        sheet_index_search (file_name f) = Some [a, b, c]};
          found = nr_find_report_file_by_index svc folder_id [a, b, c]
      in ((found = Inr None) = (matching = {}))
       \<and> (matching \<noteq> {} \<longrightarrow>
            (\<exists>f \<in> matching. found = Inr (Some (file_id f, file_name f))
                \<and> (\<forall>g \<in> matching. file_name g \<le> file_name f))))"
proof
  assume d: "is_digit a \<and> is_digit b \<and> is_digit c"
  define matches where "matches = filter (\<lambda>f. sheet_index_search (file_name f) = Some [a, b, c])
                      (nr_list_files_recursive svc folder_id 2)"
  define matching where "matching = {f \<in> files_within svc folder_id 2.
                        sheet_index_search (file_name f) = Some [a, b, c]}"
  define found where "found = nr_find_report_file_by_index svc folder_id [a, b, c]"
  have set_eq: "set matches = matching"
    by (auto simp: matches_def matching_def nr_list_files_recursive_set)
  have found_eq: "found = (if matches = [] then Inr None
         else Inr (Some (file_id (last (sort_key file_name matches)),
                         file_name (last (sort_key file_name matches)))))"
    using d unfolding found_def matches_def
    by (simp only: nr_find_three_digits Let_def)
  have none: "(found = Inr None) = (matching = {})"
    using found_eq set_eq by auto
  have some: "\<exists>f \<in> matching. found = Inr (Some (file_id f, file_name f))
                \<and> (\<forall>g \<in> matching. file_name g \<le> file_name f)" if "matching \<noteq> {}"
  proof -
    from that set_eq have ne: "matches \<noteq> []" by auto
    let ?f = "last (sort_key file_name matches)"
    from ne have "?f \<in> set matches \<and> (\<forall>x \<in> set matches. file_name x \<le> file_name ?f)"
      by (rule last_sort_key_greatest)
    moreover from ne found_eq have "found = Inr (Some (file_id ?f, file_name ?f))" by simp
    ultimately show ?thesis using set_eq by blast
  qed
  from none some show "let matching = {f \<in> files_within svc folder_id 2.
                        sheet_index_search (file_name f) = Some [a, b, c]};
          found = nr_find_report_file_by_index svc folder_id [a, b, c]
      in ((found = Inr None) = (matching = {}))
       \<and> (matching \<noteq> {} \<longrightarrow>
            (\<exists>f \<in> matching. found = Inr (Some (file_id f, file_name f))
                \<and> (\<forall>g \<in> matching. file_name g \<le> file_name f)))"
    unfolding Let_def matching_def [symmetric] found_def [symmetric] by blast
qed


theorem find_report_file_by_index_greatest_witness:
  "nr_find_report_file_by_index example_remote ''r3'' ''000''
     = Inr (Some (''y'', ''Y_000_123_Report.txt''))
   \<and> ''X_000_123_Report.txt'' \<le> ''Y_000_123_Report.txt''
   \<and> nr_find_report_file_by_index example_remote ''r3'' ''002'' = Inr None"
proof -
  let ?x = "\<lparr>file_id = ''x'', file_name = ''X_000_123_Report.txt'', mimeType = ''text/plain''\<rparr>"
  have d: "is_digit (CHR ''0'') \<and> is_digit (CHR ''0'') \<and> is_digit (CHR ''0'')"
    by (simp add: is_digit_def)
  have found: "nr_find_report_file_by_index example_remote ''r3'' ''000''
     = Inr (Some (''y'', ''Y_000_123_Report.txt''))"
    by code_simp
  have none: "nr_find_report_file_by_index example_remote ''r3'' ''002'' = Inr None"
    by code_simp
  have "?x \<in> set (nr_list_files_recursive example_remote ''r3'' 2)" by code_simp
  then have "?x \<in> files_within example_remote ''r3'' 2"
    by (simp only: nr_list_files_recursive_set)
  moreover have "sheet_index_search (file_name ?x) = Some ''000''" by code_simp
  ultimately have x: "?x \<in> {f \<in> files_within example_remote ''r3'' 2.
                        sheet_index_search (file_name f) = Some ''000''}"
    by blast
  define M where "M = {f \<in> files_within example_remote ''r3'' 2.
                        sheet_index_search (file_name f) = Some ''000''}"
  note t = find_report_file_by_index_greatest [of "CHR ''0''" "CHR ''0''" "CHR ''0''"
      example_remote "''r3''", rule_format, OF d, unfolded Let_def, THEN conjunct2, rule_format,
      folded M_def]
  from x have xM: "?x \<in> M" by (simp only: M_def)
  then have "M \<noteq> {}" by blast
  then have "\<exists>f \<in> M. nr_find_report_file_by_index example_remote ''r3'' ''000''
          = Inr (Some (file_id f, file_name f)) \<and> (\<forall>g \<in> M. file_name g \<le> file_name f)"
    by (rule t)
  then have "\<exists>f. f \<in> M \<and> (nr_find_report_file_by_index example_remote ''r3'' ''000''
          = Inr (Some (file_id f, file_name f)) \<and> (\<forall>g \<in> M. file_name g \<le> file_name f))"
    by (simp only: Bex_def)
  then obtain f where fm: "f \<in> M \<and> (nr_find_report_file_by_index example_remote ''r3'' ''000''
          = Inr (Some (file_id f, file_name f)) \<and> (\<forall>g \<in> M. file_name g \<le> file_name f))" ..
  from fm have f: "nr_find_report_file_by_index example_remote ''r3'' ''000''
          = Inr (Some (file_id f, file_name f))"
    by (rule conjunct1 [OF conjunct2])
  from fm have greatest: "\<forall>g \<in> M. file_name g \<le> file_name f"
    by (rule conjunct2 [OF conjunct2])
  from f found have "file_name f = ''Y_000_123_Report.txt''" by simp
  moreover from greatest xM have "file_name ?x \<le> file_name f" by (rule bspec)
  ultimately have "file_name ?x \<le> ''Y_000_123_Report.txt''" by (simp only:)
  then have "''X_000_123_Report.txt'' \<le> ''Y_000_123_Report.txt''" by simp
  with found none show ?thesis by blast
qed

section \<open>Facts about the runs of the sheet scripts\<close>

text \<open>The traversal only reads: none of its calls is the batched write.\<close>

lemma su_resolve_segment_reads: "filter is_write (snd (su_resolve_segment svc fid seg)) = []"
  by (simp add: su_resolve_segment_def)

lemma su_walk_segments_reads: "filter is_write (snd (su_walk_segments svc fid segs)) = []"
proof (induction segs arbitrary: fid)
  case Nil
  show ?case by simp
next
  case (Cons seg segs)
  obtain r evs where r: "su_resolve_segment svc fid seg = (r, evs)" by (cases "su_resolve_segment svc fid seg")
  then have evs: "filter is_write evs = []" using su_resolve_segment_reads [of svc fid seg] by simp
  show ?case
  proof (cases r)
    case None
    with r evs show ?thesis by simp
  next
    case (Some next_id)
    obtain r' evs' where w: "su_walk_segments svc next_id segs = (r', evs')"
      by (cases "su_walk_segments svc next_id segs")
    then have "filter is_write evs' = []" using Cons.IH [of next_id] by simp
    with r evs Some w show ?thesis by simp
  qed
qed

lemma su_index_step_reads: "filter is_write (snd (su_index_step e c_id row col segs)) = []"
proof -
  obtain r evs where w: "su_walk_segments (drive e) c_id segs = (r, evs)"
    by (cases "su_walk_segments (drive e) c_id segs")
  then have "filter is_write evs = []" using su_walk_segments_reads [of "drive e" c_id segs] by simp
  with w show ?thesis
    by (simp add: su_index_step_def split: option.splits prod.splits)
qed

lemma su_index_loop_reads:
  "filter is_write (snd (snd (su_index_loop e paths c_id row items updates))) = []"
proof (induction items arbitrary: updates)
  case Nil
  show ?case by simp
next
  case (Cons item items)
  obtain idx col where item: "item = (idx, col)" by (cases item)
  show ?case
  proof (cases "map_of paths idx")
    case None
    with item show ?thesis by simp
  next
    case (Some segs)
    obtain new evs where st: "su_index_step e c_id row col segs = (new, evs)"
      by (cases "su_index_step e c_id row col segs")
    then have evs: "filter is_write evs = []" using su_index_step_reads [of e c_id row col segs] by simp
    obtain x us evs' where lp: "su_index_loop e paths c_id row items (updates @ new) = (x, us, evs')"
      by (cases "su_index_loop e paths c_id row items (updates @ new)")
    then have "filter is_write evs' = []" using Cons.IH [of "updates @ new"] by simp
    with item Some st evs lp show ?thesis by simp
  qed
qed

lemma su_index_loop_reads':
  "su_index_loop e paths c_id row items updates = (x, us, evs) \<Longrightarrow> filter is_write evs = []"
  using su_index_loop_reads [of e paths c_id row items updates] by simp

lemma su_class_step_reads:
  "filter is_write (snd (snd (su_class_step e class_map class_name updates))) = []"
  by (auto simp: su_class_step_def split: list.splits option.splits prod.splits
      dest: su_index_loop_reads')

lemma su_class_loop_reads:
  "filter is_write (snd (snd (su_class_loop e class_map classes updates))) = []"
proof (induction classes arbitrary: updates)
  case Nil
  show ?case by simp
next
  case (Cons c classes)
  obtain x us evs where st: "su_class_step e class_map c updates = (x, us, evs)"
    by (cases "su_class_step e class_map c updates")
  then have evs: "filter is_write evs = []" using su_class_step_reads [of e class_map c updates] by simp
  show ?case
  proof (cases x)
    case (Some a)
    with st evs show ?thesis by simp
  next
    case None
    obtain x' us' evs' where lp: "su_class_loop e class_map classes us = (x', us', evs')"
      by (cases "su_class_loop e class_map classes us")
    then have "filter is_write evs' = []" using Cons.IH [of us] by simp
    with st evs None lp show ?thesis by simp
  qed
qed

lemma su_map_sheet_rows_reads: "filter is_write (snd (su_map_sheet_rows e)) = []"
  by (simp add: su_map_sheet_rows_def split: api_result.splits)

lemma nr_slm_loop_reads:
  "nr_slm_loop e rid row items updates = (x, us, evs) \<Longrightarrow> filter is_write evs = []"
proof (induction items arbitrary: updates x us evs)
  case Nil
  then show ?case by simp
next
  case (Cons item items)
  obtain idx col label where item: "item = (idx, col, label)" by (cases item)
  from Cons.prems show ?case
    unfolding item
    by (auto split: sum.splits option.splits prod.splits if_splits dest: Cons.IH)
qed

lemma nr_remote_loop_reads:
  "nr_remote_loop e c_id row remotes updates = (x, us, evs) \<Longrightarrow> filter is_write evs = []"
proof (induction remotes arbitrary: updates x us evs)
  case Nil
  then show ?case by simp
next
  case (Cons item items)
  obtain remote_name slm_map where item: "item = (remote_name, slm_map)" by (cases item)
  from Cons.prems show ?case
    unfolding item
    by (auto split: option.splits prod.splits if_splits dest: Cons.IH nr_slm_loop_reads)
qed

lemma nr_process_one_classroom_reads:
  "nr_process_one_classroom e b_id class_name row updates = (x, us, evs)
    \<Longrightarrow> filter is_write evs = []"
  by (auto simp: nr_process_one_classroom_def split: option.splits prod.splits if_splits
      dest: nr_remote_loop_reads)

lemma nr_target_loop_reads:
  "nr_target_loop e class_map classes updates = (x, us, evs) \<Longrightarrow> filter is_write evs = []"
proof (induction classes arbitrary: updates x us evs)
  case Nil
  then show ?case by simp
next
  case (Cons c classes)
  from Cons.prems show ?case
    by (auto split: option.splits prod.splits if_splits list.splits
        dest: Cons.IH nr_process_one_classroom_reads)
qed

lemma nr_classroom_loop_reads:
  "nr_classroom_loop e class_map b_id rooms updates = (x, us, evs) \<Longrightarrow> filter is_write evs = []"
proof (induction rooms arbitrary: updates x us evs)
  case Nil
  then show ?case by simp
next
  case (Cons c rooms)
  from Cons.prems show ?case
    by (auto split: option.splits prod.splits if_splits
        dest: Cons.IH nr_process_one_classroom_reads)
qed

lemma nr_building_loop_reads:
  "nr_building_loop e class_map buildings updates = (x, us, evs) \<Longrightarrow> filter is_write evs = []"
proof (induction buildings arbitrary: updates x us evs)
  case Nil
  then show ?case by simp
next
  case (Cons b buildings)
  from Cons.prems show ?case
    by (auto split: option.splits prod.splits if_splits
        dest: Cons.IH nr_classroom_loop_reads)
qed

lemma nr_collect_reads:
  "nr_collect e class_map = (x, us, evs) \<Longrightarrow> filter is_write evs = []"
  by (auto simp: nr_collect_def split: prod.splits if_splits
      dest: nr_target_loop_reads nr_building_loop_reads)

lemma nr_map_sheet_rows_reads: "filter is_write (snd (nr_map_sheet_rows e)) = []"
  by (simp add: nr_map_sheet_rows_def split: api_result.splits)

text \<open>With the tables and the class list of the scripts the traversal raises nothing:
  every index of the column table has a path, every index of the remote table is a
  numeral, and every class name has a first word.\<close>

lemma su_index_loop_no_exn:
  "\<forall>item \<in> set items. map_of paths (fst item) \<noteq> None
    \<Longrightarrow> fst (su_index_loop e paths c_id row items updates) = None"
proof (induction items arbitrary: updates)
  case Nil
  show ?case by simp
next
  case (Cons item items)
  obtain idx col where item: "item = (idx, col)" by (cases item)
  from Cons.prems item obtain segs where segs: "map_of paths idx = Some segs" by auto
  from Cons.prems have "fst (su_index_loop e paths c_id row items us) = None" for us
    by (intro Cons.IH) simp
  then show ?case unfolding item
    by (simp add: segs split: prod.splits) (metis fst_conv)
qed

lemma su_tables_agree:
  "\<forall>item \<in> set su_INDEX_TO_COL. map_of su_INDEX_TO_DRIVE_PATH (fst item) \<noteq> None"
  by (simp add: su_INDEX_TO_COL_def su_INDEX_TO_DRIVE_PATH_def)

lemma su_class_step_no_exn:
  "py_split class_name \<noteq> [] \<Longrightarrow> fst (su_class_step e class_map class_name updates) = None"
  using su_index_loop_no_exn [OF su_tables_agree]
  by (auto simp: su_class_step_def split: list.splits option.splits prod.splits)
     (metis fst_conv)+

lemma su_class_loop_no_exn:
  "\<forall>c \<in> set classes. py_split c \<noteq> []
    \<Longrightarrow> fst (su_class_loop e class_map classes updates) = None"
proof (induction classes arbitrary: updates)
  case Nil
  show ?case by simp
next
  case (Cons c classes)
  obtain x us evs where st: "su_class_step e class_map c updates = (x, us, evs)"
    by (cases "su_class_step e class_map c updates")
  from Cons.prems have "fst (su_class_step e class_map c updates) = None"
    by (intro su_class_step_no_exn) simp
  with st have x: "x = None" by simp
  obtain x' us' evs' where lp: "su_class_loop e class_map classes us = (x', us', evs')"
    by (cases "su_class_loop e class_map classes us")
  from Cons.prems have "fst (su_class_loop e class_map classes us) = None"
    by (intro Cons.IH) simp
  with lp have "x' = None" by simp
  with st x lp show ?case by simp
qed

lemma su_targets_split: "\<forall>c \<in> set su_TARGET_CLASSES. py_split c \<noteq> []"
proof -
  have "py_split ''WPH 400'' \<noteq> []" by code_simp
  moreover have "py_split ''WPH 603'' \<noteq> []" by code_simp
  ultimately show ?thesis by (simp add: su_TARGET_CLASSES_def)
qed

lemma nr_slm_loop_no_exn:
  "\<forall>item \<in> set items. py_int (fst item) \<noteq> None
    \<Longrightarrow> fst (nr_slm_loop e rid row items updates) = None"
proof (induction items arbitrary: updates)
  case Nil
  show ?case by simp
next
  case (Cons item items)
  obtain idx col label where item: "item = (idx, col, label)" by (cases item)
  from Cons.prems item obtain n where n: "py_int idx = Some n" by auto
  then have "\<exists>found. nr_find_report_file_by_index (drive e) rid idx = Inr found"
    by (simp add: nr_find_report_file_by_index_def Let_def)
  then obtain found where found: "nr_find_report_file_by_index (drive e) rid idx = Inr found" ..
  from Cons.prems have ih: "fst (nr_slm_loop e rid row items us) = None" for us
    by (intro Cons.IH) simp
  show ?case unfolding item
    by (simp add: found split: prod.splits) (metis fst_conv ih)
qed

lemma nr_remote_map_indices:
  "\<forall>remote \<in> set nr_REMOTE_MAP. \<forall>item \<in> set (snd remote). py_int (fst item) \<noteq> None"
proof -
  have "py_int ''000'' \<noteq> None" "py_int ''001'' \<noteq> None" "py_int ''002'' \<noteq> None"
    "py_int ''003'' \<noteq> None" "py_int ''004'' \<noteq> None" "py_int ''005'' \<noteq> None"
    by code_simp+
  then show ?thesis by (simp add: nr_REMOTE_MAP_def)
qed

lemma nr_remote_loop_no_exn:
  "\<forall>remote \<in> set remotes. \<forall>item \<in> set (snd remote). py_int (fst item) \<noteq> None
    \<Longrightarrow> fst (nr_remote_loop e c_id row remotes updates) = None"
proof (induction remotes arbitrary: updates)
  case Nil
  show ?case by simp
next
  case (Cons remote remotes)
  obtain remote_name slm_map where remote: "remote = (remote_name, slm_map)" by (cases remote)
  from Cons.prems remote have slm: "fst (nr_slm_loop e rid row slm_map us) = None" for rid us
    by (intro nr_slm_loop_no_exn) simp
  from Cons.prems have ih: "fst (nr_remote_loop e c_id row remotes us) = None" for us
    by (intro Cons.IH) simp
  define step where "step =
      (case nr_descend_to_folder (drive e) c_id remote_name of
              None \<Rightarrow> (None, updates, [Descend c_id remote_name])
            | Some (rid, rname) \<Rightarrow>
                if rid = [] then (None, updates, [Descend c_id remote_name])
                else (case nr_slm_loop e rid row slm_map updates of
                        (x, us, evs) \<Rightarrow> (x, us, Descend c_id remote_name # evs)))"
  have "fst step = None"
    unfolding step_def using slm
    by (auto split: option.splits prod.splits) (metis fst_conv)
  then obtain us evs where step: "step = (None, us, evs)" by (cases step) auto
  obtain x' us' evs' where lp: "nr_remote_loop e c_id row remotes us = (x', us', evs')"
    by (cases "nr_remote_loop e c_id row remotes us")
  with ih [of us] have "x' = None" by simp
  with step lp show ?case unfolding remote nr_remote_loop.simps step_def [symmetric] by simp
qed

lemma nr_process_one_classroom_no_exn:
  "fst (nr_process_one_classroom e b_id class_name row updates) = None"
  using nr_remote_loop_no_exn [OF nr_remote_map_indices]
  by (auto simp: nr_process_one_classroom_def split: option.splits prod.splits)
     (metis fst_conv)

lemma nr_target_loop_no_exn:
  "\<forall>c \<in> set classes. py_split c \<noteq> []
    \<Longrightarrow> fst (nr_target_loop e class_map classes updates) = None"
proof (induction classes arbitrary: updates)
  case Nil
  show ?case by simp
next
  case (Cons c classes)
  from Cons.prems have ih: "fst (nr_target_loop e class_map classes us) = None" for us
    by (intro Cons.IH) simp
  from Cons.prems have sp: "py_split c \<noteq> []" by simp
  define step where "step =
      (case class_map (nr_keyize (Some c)) of
              None \<Rightarrow> (None, updates, [])
            | Some row \<Rightarrow>
                if row = 0 then (None, updates, [])
                else (case py_split c of
                        [] \<Rightarrow> (Some IndexError, updates, [])
                      | building_token # parts \<Rightarrow>
                          (case nr_descend_to_folder (drive e) nr_DRIVE_ROOT_FOLDER_ID
                                  building_token of
                             None \<Rightarrow>
                               (None, updates, [Descend nr_DRIVE_ROOT_FOLDER_ID building_token])
                           | Some (b_id, bname) \<Rightarrow>
                               if b_id = [] then
                                 (None, updates, [Descend nr_DRIVE_ROOT_FOLDER_ID building_token])
                               else (case nr_process_one_classroom e b_id c row updates of
                                       (x, us, evs) \<Rightarrow>
                                         (x, us,
                                          Descend nr_DRIVE_ROOT_FOLDER_ID building_token # evs)))))"
  have "fst step = None"
    unfolding step_def using sp nr_process_one_classroom_no_exn
    by (auto split: option.splits prod.splits list.splits) (metis fst_conv)
  then obtain us evs where step: "step = (None, us, evs)" by (cases step) auto
  obtain x' us' evs' where lp: "nr_target_loop e class_map classes us = (x', us', evs')"
    by (cases "nr_target_loop e class_map classes us")
  with ih [of us] have "x' = None" by simp
  with step lp show ?case unfolding nr_target_loop.simps step_def [symmetric] by simp
qed

lemma nr_targets_split: "nr_TARGET_CLASSES \<noteq> [] \<and> (\<forall>c \<in> set nr_TARGET_CLASSES. py_split c \<noteq> [])"
proof -
  have "py_split ''SOS B37'' \<noteq> []" by code_simp
  then show ?thesis by (simp add: nr_TARGET_CLASSES_def)
qed

lemma nr_collect_no_exn: "fst (nr_collect e class_map) = None"
  using nr_targets_split nr_target_loop_no_exn by (simp add: nr_collect_def)

lemma su_main_cases:
  "(case su_collection e of
      None \<Rightarrow> fst (su_main e) = SysExit 1 \<and> filter is_write (snd (su_main e)) = []
    | Some (updates, pre) \<Rightarrow>
        filter is_write pre = []
        \<and> su_main e = (Returned,
             pre @ (if updates = [] then [Print NoUpdates]
                    else [BatchUpdate updates, Print (Wrote (length updates))])))"
proof -
  obtain cm evs where rows: "su_map_sheet_rows e = (cm, evs)" by (cases "su_map_sheet_rows e")
  from rows have evs: "filter is_write evs = []" using su_map_sheet_rows_reads [of e] by simp
  show ?thesis
  proof (cases cm)
    case None
    with rows evs show ?thesis by (simp add: su_collection_def su_main_def)
  next
    case (Some class_map)
    obtain x updates evs' where lp:
      "su_class_loop e class_map su_TARGET_CLASSES [] = (x, updates, evs')"
      by (cases "su_class_loop e class_map su_TARGET_CLASSES []")
    from lp have "x = None"
      using su_class_loop_no_exn [OF su_targets_split, of e class_map "[]"] by simp
    moreover from lp have "filter is_write evs' = []"
      using su_class_loop_reads [of e class_map su_TARGET_CLASSES "[]"] by simp
    ultimately show ?thesis using rows evs Some lp
      by (simp add: su_collection_def su_main_def)
  qed
qed

lemma nr_main_cases:
  "(case nr_collection e of
      None \<Rightarrow> fst (nr_main e) = SysExit 1 \<and> filter is_write (snd (nr_main e)) = []
    | Some (updates, pre) \<Rightarrow>
        filter is_write pre = []
        \<and> nr_main e = (Returned,
             pre @ (if updates = [] then [Print NoUpdates]
                    else [BatchUpdate updates, Print (Wrote (length updates))])))"
proof -
  obtain cm evs where rows: "nr_map_sheet_rows e = (cm, evs)" by (cases "nr_map_sheet_rows e")
  from rows have evs: "filter is_write evs = []" using nr_map_sheet_rows_reads [of e] by simp
  show ?thesis
  proof (cases cm)
    case None
    with rows evs show ?thesis by (simp add: nr_collection_def nr_main_def)
  next
    case (Some class_map)
    obtain x updates evs' where lp: "nr_collect e class_map = (x, updates, evs')"
      by (cases "nr_collect e class_map")
    from lp have "x = None" using nr_collect_no_exn [of e class_map] by simp
    moreover from lp have "filter is_write evs' = []" by (rule nr_collect_reads)
    ultimately show ?thesis using rows evs Some lp
      by (simp add: nr_collection_def nr_main_def)
  qed
qed

text \<open>
  Claim C6. In a run of either sheet script the batched write is made exactly once when
  the traversal recorded at least one update, as one call with all recorded updates in
  order, and not at all when it recorded none, in which case the run prints that there
  were no updates; no write comes before the end of the traversal. A run is: the calls up
  to the end of the traversal, none of them a write, then the write and its message, or
  the message alone. A run that \<open>map_sheet_rows\<close> ends writes nothing. Every read of the
  remote tree is taken to succeed.
\<close>

theorem one_batched_write_per_run:
  "(case su_collection e of
      None \<Rightarrow> fst (su_main e) = SysExit 1 \<and> filter is_write (snd (su_main e)) = []
    | Some (updates, pre) \<Rightarrow>
        filter is_write pre = []
        \<and> su_main e = (Returned,
             pre @ (if updates = [] then [Print NoUpdates]
                    else [BatchUpdate updates, Print (Wrote (length updates))])))
   \<and> (case nr_collection e of
      None \<Rightarrow> fst (nr_main e) = SysExit 1 \<and> filter is_write (snd (nr_main e)) = []
    | Some (updates, pre) \<Rightarrow>
        filter is_write pre = []
        \<and> nr_main e = (Returned,
             pre @ (if updates = [] then [Print NoUpdates]
                    else [BatchUpdate updates, Print (Wrote (length updates))])))"
  using su_main_cases [of e] nr_main_cases [of e] by (rule conjI)

theorem one_batched_write_per_run_witness:
  "(\<exists>pre. filter is_write pre = []
      \<and> su_main example_env
          = (Returned, pre @ [BatchUpdate [(''Main Sheet!F10'', ''42.1'')], Print (Wrote 1)]))
   \<and> (\<exists>pre. filter is_write pre = []
      \<and> nr_main example_env
          = (Returned, pre @ [BatchUpdate [(''Main Sheet!AA5'', ''38.4'')], Print (Wrote 1)]))
   \<and> (\<exists>pre. filter is_write pre = []
      \<and> nr_main (example_env\<lparr>column_a := Ok []\<rparr>) = (Returned, pre @ [Print NoUpdates]))"
proof -
  have su: "map_option fst (su_collection example_env) = Some [(''Main Sheet!F10'', ''42.1'')]"
    by code_simp
  have nr: "map_option fst (nr_collection example_env) = Some [(''Main Sheet!AA5'', ''38.4'')]"
    by code_simp
  have nr0: "map_option fst (nr_collection (example_env\<lparr>column_a := Ok []\<rparr>)) = Some []"
    by code_simp
  from su obtain pre1 where c1: "su_collection example_env
      = Some ([(''Main Sheet!F10'', ''42.1'')], pre1)"
    by (cases "su_collection example_env") auto
  from nr obtain pre2 where c2: "nr_collection example_env
      = Some ([(''Main Sheet!AA5'', ''38.4'')], pre2)"
    by (cases "nr_collection example_env") auto
  from nr0 obtain pre3 where c3: "nr_collection (example_env\<lparr>column_a := Ok []\<rparr>)
      = Some ([], pre3)"
    by (cases "nr_collection (example_env\<lparr>column_a := Ok []\<rparr>)") auto
  from one_batched_write_per_run [of example_env] c1 c2
  have a: "filter is_write pre1 = [] \<and> su_main example_env
          = (Returned, pre1 @ [BatchUpdate [(''Main Sheet!F10'', ''42.1'')], Print (Wrote 1)])"
    and b: "filter is_write pre2 = [] \<and> nr_main example_env
          = (Returned, pre2 @ [BatchUpdate [(''Main Sheet!AA5'', ''38.4'')], Print (Wrote 1)])"
    by simp_all
  from one_batched_write_per_run [of "example_env\<lparr>column_a := Ok []\<rparr>"] c3
  have c: "filter is_write pre3 = []
      \<and> nr_main (example_env\<lparr>column_a := Ok []\<rparr>) = (Returned, pre3 @ [Print NoUpdates])"
    by simp
  from a b c show ?thesis by blast
qed

text \<open>
  Claim C7. When the spreadsheet has no tab of the configured name the process exits with
  status 1 before any write. \<open>Sheet_Update_runt_this.py\<close> checks the tab names itself;
  \<open>Sheet_update_new_remote.py\<close> has no such check and exits when the service refuses the
  range of the missing tab with an \<open>HttpError\<close>.
\<close>

theorem missing_tab_exits_before_writing:
  "(\<forall>titles. spreadsheet_titles e = Ok titles \<and> SHEET_NAME \<notin> set titles \<longrightarrow>
        su_main e = (SysExit 1, [SheetsGet, Print ConfigError])
        \<and> filter is_write (snd (su_main e)) = [])
   \<and> (column_a e = HttpError \<longrightarrow>
        nr_main e = (SysExit 1, [ValuesGet ROWS_RANGE, Print ApiError])
        \<and> filter is_write (snd (nr_main e)) = [])"
  by (simp add: su_main_def su_map_sheet_rows_def nr_main_def nr_map_sheet_rows_def)

theorem missing_tab_exits_before_writing_witness:
  "SHEET_NAME \<notin> set [''Notes'']
   \<and> su_main example_env_no_tab = (SysExit 1, [SheetsGet, Print ConfigError])
   \<and> nr_main example_env_no_tab = (SysExit 1, [ValuesGet ROWS_RANGE, Print ApiError])"
proof -
  have t: "spreadsheet_titles example_env_no_tab = Ok [''Notes'']"
    by (simp add: example_env_no_tab_def)
  have n: "SHEET_NAME \<notin> set [''Notes'']" by (simp add: SHEET_NAME_def)
  have h: "column_a example_env_no_tab = HttpError" by (simp add: example_env_no_tab_def)
  from missing_tab_exits_before_writing [of example_env_no_tab] t n h show ?thesis by simp
qed

lemma su_alt_spelling_map:
  "su_alt_spelling seg =
     (if CHR ''_'' \<in> set seg then map (\<lambda>c. if c = CHR ''_'' then CHR '' '' else c) seg
      else map (\<lambda>c. if c = CHR '' '' then CHR ''_'' else c) seg)"
  by (simp add: su_alt_spelling_def py_replace_single)

lemma su_walk_segments_fail:
  "\<not> truthy (fst (su_resolve_segment svc fid seg))
    \<Longrightarrow> fst (su_walk_segments svc fid (seg # segs)) = None"
  by (cases "su_resolve_segment svc fid seg")
     (auto simp: truthy_def split: option.splits prod.splits)

lemma su_walk_segments_step:
  "fst (su_resolve_segment svc fid seg) = Some next_id \<Longrightarrow> next_id \<noteq> []
    \<Longrightarrow> fst (su_walk_segments svc fid (seg # segs)) = fst (su_walk_segments svc next_id segs)"
  by (cases "su_resolve_segment svc fid seg")
     (auto split: option.splits prod.splits)

lemma su_index_step_abandoned:
  "fst (su_walk_segments (drive e) c_id segs) = None
    \<Longrightarrow> su_index_step e c_id row col segs = ([], snd (su_walk_segments (drive e) c_id segs))"
  by (cases "su_walk_segments (drive e) c_id segs") (simp add: su_index_step_def)

lemma su_index_loop_abandoned:
  "map_of paths idx = Some segs \<Longrightarrow> fst (su_walk_segments (drive e) c_id segs) = None
    \<Longrightarrow> su_index_loop e paths c_id row ((idx, col) # rest) updates =
        (case su_index_loop e paths c_id row rest updates of
           (x, us, evs') \<Rightarrow> (x, us, snd (su_walk_segments (drive e) c_id segs) @ evs'))"
  by (simp add: su_index_step_abandoned)

lemma front_1_key: "su_keyize (Some ''Front 1'') = su_keyize (Some ''Front_1'')"
  by code_simp

lemma su_resolve_front_1:
  "i \<noteq> [] \<Longrightarrow>
   list_children svc fid = [\<lparr>file_id = i, file_name = ''Front 1'', mimeType = FOLDER_MIME\<rparr>]
    \<Longrightarrow> su_resolve_segment svc fid ''Front_1'' = (Some i, [Descend fid ''Front_1''])"
  by (simp add: su_resolve_segment_def su_descend_to_folder_def is_folder_def truthy_def
      front_1_key)

text \<open>
  Claim C5. A segment is first looked up as configured. If that fails, exactly one other
  spelling is tried: every underscore turned into a space when the segment has an
  underscore, every space turned into an underscore otherwise. If both fail the walk of
  this index ends without a folder, the index adds no update and raises nothing, and the
  loop goes on with the next index. A segment \<open>Front_1\<close> resolves in a folder whose only
  entry is a folder named \<open>Front 1\<close>.
\<close>

theorem segment_resolution_two_attempts:
  "(truthy (su_descend_to_folder svc fid seg) \<longrightarrow>
      su_resolve_segment svc fid seg = (su_descend_to_folder svc fid seg, [Descend fid seg]))
   \<and> (\<not> truthy (su_descend_to_folder svc fid seg) \<longrightarrow>
      (let alt = (if CHR ''_'' \<in> set seg
                  then map (\<lambda>c. if c = CHR ''_'' then CHR '' '' else c) seg
                  else map (\<lambda>c. if c = CHR '' '' then CHR ''_'' else c) seg)
       in su_resolve_segment svc fid seg
            = (su_descend_to_folder svc fid alt, [Descend fid seg, Descend fid alt])))
   \<and> (\<not> truthy (fst (su_resolve_segment svc fid seg)) \<longrightarrow>
        fst (su_walk_segments svc fid (seg # segs)) = None)
   \<and> (\<forall>next_id. fst (su_resolve_segment svc fid seg) = Some next_id \<and> next_id \<noteq> [] \<longrightarrow>
        fst (su_walk_segments svc fid (seg # segs)) = fst (su_walk_segments svc next_id segs))
   \<and> (\<forall>e paths c_id row idx col rest updates path.
        map_of paths idx = Some path \<and> fst (su_walk_segments (drive e) c_id path) = None \<longrightarrow>
        su_index_loop e paths c_id row ((idx, col) # rest) updates =
          (case su_index_loop e paths c_id row rest updates of
             (x, us, evs') \<Rightarrow> (x, us, snd (su_walk_segments (drive e) c_id path) @ evs')))
   \<and> (\<forall>i. i \<noteq> []
          \<and> list_children svc fid
               = [\<lparr>file_id = i, file_name = ''Front 1'', mimeType = FOLDER_MIME\<rparr>] \<longrightarrow>
        su_resolve_segment svc fid ''Front_1'' = (Some i, [Descend fid ''Front_1'']))"
proof (intro conjI allI impI)
  assume "truthy (su_descend_to_folder svc fid seg)"
  then show "su_resolve_segment svc fid seg = (su_descend_to_folder svc fid seg, [Descend fid seg])"
    by (simp add: su_resolve_segment_def)
next
  assume "\<not> truthy (su_descend_to_folder svc fid seg)"
  then show "let alt = (if CHR ''_'' \<in> set seg
                  then map (\<lambda>c. if c = CHR ''_'' then CHR '' '' else c) seg
                  else map (\<lambda>c. if c = CHR '' '' then CHR ''_'' else c) seg)
       in su_resolve_segment svc fid seg
            = (su_descend_to_folder svc fid alt, [Descend fid seg, Descend fid alt])"
    unfolding Let_def su_alt_spelling_map [symmetric] by (simp add: su_resolve_segment_def)
next
  assume "\<not> truthy (fst (su_resolve_segment svc fid seg))"
  then show "fst (su_walk_segments svc fid (seg # segs)) = None"
    by (rule su_walk_segments_fail)
next
  fix next_id
  assume "fst (su_resolve_segment svc fid seg) = Some next_id \<and> next_id \<noteq> []"
  then show "fst (su_walk_segments svc fid (seg # segs)) = fst (su_walk_segments svc next_id segs)"
    using su_walk_segments_step by blast
next
  fix e :: env and paths :: "(string \<times> string list) list" and idx :: string
    and c_id row col rest updates path
  assume "map_of paths idx = Some path \<and> fst (su_walk_segments (drive e) c_id path) = None"
  then show "su_index_loop e paths c_id row ((idx, col) # rest) updates =
          (case su_index_loop e paths c_id row rest updates of
             (x, us, evs') \<Rightarrow> (x, us, snd (su_walk_segments (drive e) c_id path) @ evs'))"
    using su_index_loop_abandoned by blast
next
  fix i
  assume "i \<noteq> [] \<and> list_children svc fid
               = [\<lparr>file_id = i, file_name = ''Front 1'', mimeType = FOLDER_MIME\<rparr>]"
  then show "su_resolve_segment svc fid ''Front_1'' = (Some i, [Descend fid ''Front_1''])"
    using su_resolve_front_1 by blast
qed

theorem segment_resolution_two_attempts_witness:
  "su_resolve_segment example_front ''P'' ''Front_1'' = (Some ''F1'', [Descend ''P'' ''Front_1''])
   \<and> su_resolve_segment example_front ''P'' ''Back_1''
       = (None, [Descend ''P'' ''Back_1'', Descend ''P'' ''Back 1''])
   \<and> fst (su_walk_segments example_front ''P'' [''Back_1'', ''Center'']) = None"
proof -
  have l: "list_children example_front ''P''
      = [\<lparr>file_id = ''F1'', file_name = ''Front 1'', mimeType = FOLDER_MIME\<rparr>]"
    by (simp add: list_children_def example_front_def)
  have ne: "''F1'' \<noteq> []" by simp
  have b1: "su_descend_to_folder example_front ''P'' ''Back_1'' = None" by code_simp
  have b2: "su_descend_to_folder example_front ''P'' ''Back 1'' = None" by code_simp
  have u: "CHR ''_'' \<in> set ''Back_1''" by simp
  have m: "map (\<lambda>c. if c = CHR ''_'' then CHR '' '' else c) ''Back_1'' = ''Back 1''" by simp
  note t = segment_resolution_two_attempts [of example_front "''P''" "''Back_1''" "[''Center'']"]
  note f = segment_resolution_two_attempts [of example_front "''P''" "''Front_1''" "[]"]
  from f l ne have front:
    "su_resolve_segment example_front ''P'' ''Front_1'' = (Some ''F1'', [Descend ''P'' ''Front_1''])"
    by blast
  from b1 have nt: "\<not> truthy (su_descend_to_folder example_front ''P'' ''Back_1'')"
    by (simp add: truthy_def)
  with t have "let alt = (if CHR ''_'' \<in> set ''Back_1''
                  then map (\<lambda>c. if c = CHR ''_'' then CHR '' '' else c) ''Back_1''
                  else map (\<lambda>c. if c = CHR '' '' then CHR ''_'' else c) ''Back_1'')
       in su_resolve_segment example_front ''P'' ''Back_1''
            = (su_descend_to_folder example_front ''P'' alt,
               [Descend ''P'' ''Back_1'', Descend ''P'' alt])"
    by blast
  then have second: "su_resolve_segment example_front ''P'' ''Back_1''
       = (None, [Descend ''P'' ''Back_1'', Descend ''P'' ''Back 1''])"
    unfolding Let_def using u by (simp only: if_True m b2)
  then have "\<not> truthy (fst (su_resolve_segment example_front ''P'' ''Back_1''))"
    by (simp add: truthy_def)
  with t have "fst (su_walk_segments example_front ''P'' [''Back_1'', ''Center'']) = None"
    by blast
  with front second show ?thesis by blast
qed

text \<open>On a segment without a comma the other spelling has the key of the segment itself,
  so the second descent finds what the first found.\<close>

lemma su_alt_spelling_same_key:
  assumes "CHR '','' \<notin> set seg"
  shows "su_keyize (Some (su_alt_spelling seg)) = su_keyize (Some seg)"
proof -
  have swap: "filter is_alnum (map (\<lambda>c. if c = a then b else c) s) = filter is_alnum s"
    if "\<not> is_alnum a" "\<not> is_alnum b" for a b s
    using that by (induction s) auto
  have strip: "strip_non_alnum (su_alt_spelling seg) = strip_non_alnum seg"
    unfolding su_alt_spelling_map strip_non_alnum_def
    by (simp add: swap underscore_not_alnum space_not_alnum)
  from assms have "CHR '','' \<notin> set (su_alt_spelling seg)"
    unfolding su_alt_spelling_map by auto
  then have "su_keyize (Some (su_alt_spelling seg)) = nr_keyize (Some (su_alt_spelling seg))"
    by (rule su_keyize_without_comma)
  also have "\<dots> = nr_keyize (Some seg)" by (simp add: nr_keyize_Some strip)
  also have "\<dots> = su_keyize (Some seg)" using assms by (simp add: su_keyize_without_comma)
  finally show ?thesis .
qed

section \<open>Facts about the upload paths\<close>










end
